theory Spec2Isabelle
  imports Main
begin

section \<open>RET: the recursive embedded test engine (ret.c, ret.h)\<close>

text \<open>
  A shallow embedding of the engine of \<^verbatim>\<open>ret.c\<close>. The static data of the C file
  (\<^verbatim>\<open>ret\<close>, \<^verbatim>\<open>ret_buf\<close>, \<^verbatim>\<open>ret_env\<close>) and the user's \<^verbatim>\<open>ret_param_t\<close>
  are one record that every function takes and returns. C strings are \<open>string\<close>s holding
  the bytes before the terminator; pointers into a buffer are offsets from its start.
  \<^verbatim>\<open>setjmp\<close>/\<^verbatim>\<open>longjmp\<close> is an outcome that every caller inspects.
\<close>

subsection \<open>Configuration (ret.h)\<close>

definition RET_REPORT_BUF_SIZE :: nat where
  "RET_REPORT_BUF_SIZE = 4096"

definition RET_MAX_TAG_STRING_SIZE :: nat where
  "RET_MAX_TAG_STRING_SIZE = 256"

definition RET_MAX_NEST_SIZE :: nat where
  "RET_MAX_NEST_SIZE = 6"

definition RET_ROOT_TAG :: string where
  "RET_ROOT_TAG = ''ROOT''"

definition RET_PAUSE :: bool where
  "RET_PAUSE = True"

definition RET_NO_PAUSE :: bool where
  "RET_NO_PAUSE = False"

definition RET_TOKEN_DELIMITER :: char where
  "RET_TOKEN_DELIMITER = CHR ''@''"

definition RET_TAG_ERR_MSG :: string where
  "RET_TAG_ERR_MSG = ''Error: RET_MAX_TAG_STRING_SIZE exceeded''"

definition RET_LAYER_ERR_MSG :: string where
  "RET_LAYER_ERR_MSG = ''Error: RET_MAX_NEST_SIZE exceeded''"

definition RET_PATH_ERR_MSG :: string where
  "RET_PATH_ERR_MSG = ''test path not found''"

definition RET_TEST_DONE_MSG :: string where
  "RET_TEST_DONE_MSG = ''DONE''"

text \<open>The width of \<^verbatim>\<open>uint32_t\<close>: line numbers and tick counts wrap at \<open>2 ^ 32\<close>.\<close>

definition u32 :: "nat \<Rightarrow> nat" where
  "u32 n = n mod 4294967296"

subsection \<open>Data types (ret.h)\<close>

datatype ret_val_t = RET_PASS | RET_FAIL | RET_ERR_TIMEOUT | RET_ERR_TAG

datatype ret_mode_t = RET_MODE_SEARCH | RET_MODE_EXE | RET_MODE_SKIP

text \<open>The value of the enumeration constant, as \<^verbatim>\<open>longjmp\<close> and the table of
  result words read it.\<close>

fun ret_val_int :: "ret_val_t \<Rightarrow> nat" where
  "ret_val_int RET_PASS = 0"
| "ret_val_int RET_FAIL = 1"
| "ret_val_int RET_ERR_TIMEOUT = 2"
| "ret_val_int RET_ERR_TAG = 3"

definition RET_RETVAL_STR :: "string list" where
  "RET_RETVAL_STR = [''PASS'', ''FAIL'', ''TIMEOUT'', ''TAG_ID'']"

record ret_param_t =
  mode :: ret_mode_t
  test_tag :: string
  tag_found :: int
  retval :: int

text \<open>
  Test functions are user code. A leaf is the \<^verbatim>\<open>RET_MODE_SEARCH()\<close> guard, a sequence
  of calls into the engine, and a returned value; a branch returns
  \<^verbatim>\<open>retExecuteList(param, &list)\<close> for its own list. \<open>RET_ASSERT c l f\<close> is the macro
  at line \<open>l\<close> of file \<open>f\<close> whose argument evaluates to \<open>c\<close>.
\<close>

datatype stmt =
    RET_ASSERT bool int string
  | InfoLineFmt string
  | InfoLine string bool
  | SetRetval int

datatype ret_func = Leaf "stmt list" ret_val_t | Branch "ret_test_t list"
  and ret_test_t = Test ret_func string

text \<open>
  What a run does that its report does not show: each call of a test function
  (with the tag path at the call), each leaf that gets past its guard, each result
  the executor records for a node (with the index of the frame's environment slot),
  and the two terminal reports.
\<close>

datatype event =
    EvCall string
  | EvBody string
  | EvResult nat ret_val_t
  | EvPathNotFound
  | EvDone

text \<open>
  \<open>tag_str\<close> holds the bytes of \<^verbatim>\<open>ret.tag_str\<close> before its terminator and
  \<open>tag_ptr\<close> the offset of \<^verbatim>\<open>ret.tag_ptr\<close>. \<open>buf\<close> holds the bytes between
  \<^verbatim>\<open>ret_buf.buf\<close> and \<^verbatim>\<open>ret_buf.next_in\<close>, so \<^verbatim>\<open>next_in\<close> is \<open>length buf\<close>.
  \<open>env_tag_ptr\<close> and \<open>env_timer\<close> are the two data fields of the slots of
  \<^verbatim>\<open>ret_env\<close>, by index; the array has \<open>RET_MAX_NEST_SIZE\<close> slots, and every
  function that indexes it checks the index against that size. \<open>sent\<close> is what \<^verbatim>\<open>RET_SEND_BUF\<close>
  has transmitted, one string per call; \<open>sys_tick\<close> the values that
  \<^verbatim>\<open>RET_SYS_TICK_FUNC\<close> is going to return. \<open>stores\<close> lists the index of every
  store into \<^verbatim>\<open>ret_buf.buf\<close>, the latest first; \<open>events\<close> the events, the
  latest first.
\<close>

record ret_state =
  next_line_number :: nat
  tag_str :: string
  tag_ptr :: nat
  nest :: nat
  buf :: string
  is_pause :: bool
  env_tag_ptr :: "nat \<Rightarrow> nat"
  env_timer :: "nat \<Rightarrow> nat"
  param :: ret_param_t
  sent :: "string list"
  sys_tick :: "nat list"
  stores :: "nat list"
  events :: "event list"

text \<open>
  A function that can leave by \<^verbatim>\<open>longjmp\<close> returns an outcome: a normal return
  with its value, a jump to the environment of a slot with the value handed to
  \<^verbatim>\<open>longjmp\<close>, or \<open>Fault\<close> where the C program leaves what the embedding
  represents: an index outside \<^verbatim>\<open>ret_env\<close>, a store outside \<^verbatim>\<open>ret.tag_str\<close>
  or outside the message array of \<^verbatim>\<open>retAssert\<close>, a signed overflow, or a tag
  pointer beyond the terminator, where bytes lie that \<open>tag_str\<close> does not keep.
\<close>

datatype 'a outcome = Return 'a ret_state | Longjmp nat int ret_state | Fault

subsection \<open>The report buffer\<close>

text \<open>\<^verbatim>\<open>retSendBuffer\<close>: terminate the buffer, transmit it, reset the cursor.\<close>

definition retSendBuffer :: "ret_state \<Rightarrow> ret_state" where
  "retSendBuffer s =
     (if buf s \<noteq> [] then
        s\<lparr>stores := length (buf s) # stores s,
          sent := sent s @ [buf s],
          buf := []\<rparr>
      else s)"

definition retPutChar :: "char \<Rightarrow> ret_state \<Rightarrow> ret_state" where
  "retPutChar c s =
     (if length (buf s) < RET_REPORT_BUF_SIZE then
        (let s1 = s\<lparr>stores := length (buf s) # stores s, buf := buf s @ [c]\<rparr>
         in if c = CHR 0x0A \<and> is_pause s1 then retSendBuffer s1 else s1)
      else s)"

fun retPutString :: "string \<Rightarrow> ret_state \<Rightarrow> ret_state" where
  "retPutString [] s = s"
| "retPutString (c # cs) s = retPutString cs (retPutChar c s)"

definition retPutLineFeed :: "ret_state \<Rightarrow> ret_state" where
  "retPutLineFeed s = retPutChar (CHR 0x0A) s"

definition retPutCommaSeparator :: "ret_state \<Rightarrow> ret_state" where
  "retPutCommaSeparator s = retPutChar (CHR '','') s"

subsection \<open>Number formatting\<close>

text \<open>
  The \<^verbatim>\<open>do ... while(value && ch_ptr > work)\<close> loop of \<^verbatim>\<open>retDecimalDigits\<close>:
  \<open>ch\<close> is the offset of \<^verbatim>\<open>ch_ptr\<close> in \<^verbatim>\<open>work\<close>.
\<close>

function dd_loop :: "nat \<Rightarrow> nat \<Rightarrow> string \<Rightarrow> string" where
  "dd_loop v ch work =
     (let next = v div 10;
          ch1 = ch - 1;
          work1 = work[ch1 := char_of (of_char (CHR ''0'') + v - next * 10)]
      in if next \<noteq> 0 \<and> ch1 > 0 then dd_loop next ch1 work1 else work1)"
  by pat_completeness auto
termination
  by (relation "measure (\<lambda>(v, ch, work). ch)") auto

definition retDecimalDigits :: "nat \<Rightarrow> nat \<Rightarrow> ret_state \<Rightarrow> ret_state" where
  "retDecimalDigits v width s =
     (if width > 0 \<and> width < 10 then
        retPutString (take width (dd_loop v width (replicate 10 (CHR '' '')))) s
      else s)"

text \<open>
  \<^verbatim>\<open>retConvIntToDecAscii\<close>: the digits come out in reverse and are turned round.
  The argument is an \<^verbatim>\<open>int32_t\<close>. For its least value the negation
  \<^verbatim>\<open>val = -val\<close> overflows, which C leaves undefined: the result is \<open>None\<close> there,
  and for every integer that is no \<^verbatim>\<open>int32_t\<close>.
\<close>

function conv_loop :: "nat \<Rightarrow> string" where
  "conv_loop v =
     (''0123456789abcdef'' ! (v mod 10)) # (if v div 10 \<noteq> 0 then conv_loop (v div 10) else [])"
  by pat_completeness auto
termination
  by (relation "measure id") auto

definition retConvIntToDecAscii :: "int \<Rightarrow> string option" where
  "retConvIntToDecAscii val =
     (if val < - 2147483647 \<or> 2147483647 < val then None
      else
        (let neg_flag = val < 0;
             v = nat (if neg_flag then - val else val)
         in Some (rev (conv_loop v @ (if neg_flag then ''-'' else [])))))"

subsection \<open>Report lines\<close>

definition retFormatLine :: "char \<Rightarrow> string \<Rightarrow> bool \<Rightarrow> ret_state \<Rightarrow> ret_state" where
  "retFormatLine msg_type str pause s =
     (let save_pause = is_pause s;
          s1 = retPutChar msg_type (s\<lparr>is_pause := pause\<rparr>);
          s2 = retPutCommaSeparator s1;
          s3 = retDecimalDigits (next_line_number s2) 4
                 (s2\<lparr>next_line_number := u32 (next_line_number s2 + 1)\<rparr>);
          s4 = retPutCommaSeparator s3;
          s5 = retPutString ''    '' s4;
          s6 = retPutCommaSeparator s5;
          s7 = retPutString ''      '' s6;
          s8 = retPutCommaSeparator s7;
          str1 = (if length str > RET_MAX_TAG_STRING_SIZE
                  then ''<string exceeds length limit>'' else str);
          s9 = retPutString str1 s8;
          s10 = retPutLineFeed s9
      in s10\<lparr>is_pause := save_pause\<rparr>)"

definition retInfoLine :: "string \<Rightarrow> bool \<Rightarrow> ret_state \<Rightarrow> ret_state" where
  "retInfoLine str pause s = retFormatLine (CHR ''I'') str pause s"

definition retInfoLineFmt :: "string \<Rightarrow> ret_state \<Rightarrow> ret_state" where
  "retInfoLineFmt str s = retInfoLine str RET_NO_PAUSE s"

definition retSearchLine :: "string \<Rightarrow> ret_state \<Rightarrow> ret_state" where
  "retSearchLine str s = retFormatLine (CHR ''S'') str RET_NO_PAUSE s"

definition retTestLineFormat :: "ret_val_t \<Rightarrow> nat \<Rightarrow> ret_state \<Rightarrow> ret_state" where
  "retTestLineFormat rv elapsed_time s =
     (let s1 = retPutChar (CHR ''T'') s;
          s2 = retPutCommaSeparator s1;
          s3 = retDecimalDigits (next_line_number s2) 4
                 (s2\<lparr>next_line_number := u32 (next_line_number s2 + 1)\<rparr>);
          s4 = retPutCommaSeparator s3;
          s5 = retPutString (RET_RETVAL_STR ! ret_val_int rv) s4;
          s6 = retPutCommaSeparator s5;
          s7 = retDecimalDigits elapsed_time 6 s6;
          s8 = retPutCommaSeparator s7;
          s9 = retPutString (tag_str s8) s8
      in retPutLineFeed s9)"

subsection \<open>The tag path\<close>

text \<open>\<^verbatim>\<open>strstr\<close>: the offset of the first occurrence, or \<open>None\<close> for \<^verbatim>\<open>NULL\<close>.\<close>

fun strstr :: "string \<Rightarrow> string \<Rightarrow> nat option" where
  "strstr [] needle = (if needle = [] then Some 0 else None)"
| "strstr (c # cs) needle =
     (if take (length needle) (c # cs) = needle then Some 0
      else map_option Suc (strstr cs needle))"

text \<open>The byte at an offset of a C string: the terminator at its end.\<close>

definition char_at :: "string \<Rightarrow> nat \<Rightarrow> char" where
  "char_at str i = (if i < length str then str ! i else CHR 0x00)"

definition retFindTagToken :: "ret_state \<Rightarrow> bool \<times> ret_state" where
  "retFindTagToken s =
     (case strstr (tag_str s) (test_tag (param s)) of
        None \<Rightarrow> (False, s)
      | Some tag_pos \<Rightarrow>
          if char_at (tag_str s) (tag_pos + length (test_tag (param s))) \<noteq> RET_TOKEN_DELIMITER
             \<and> char_at (tag_str s) (tag_pos + length (test_tag (param s))) \<noteq> CHR 0x00
          then (False, s)
          else (True, s\<lparr>param := (param s)\<lparr>tag_found := tag_found (param s) + 1\<rparr>\<rparr>))"

text \<open>
  \<^verbatim>\<open>retAddTag\<close>. \<^verbatim>\<open>strcat(save_previous, ...)\<close> appends at the first terminator at
  or after \<^verbatim>\<open>save_previous\<close>: the end of the path when the pointer is not beyond it,
  and the appended bytes must fit the array.
\<close>

definition retAddTag :: "string \<Rightarrow> ret_state \<Rightarrow> ret_val_t outcome" where
  "retAddTag tag s =
     (let save_previous = tag_ptr s;
          new_ptr = save_previous + length tag + 1
      in if \<not> new_ptr < RET_MAX_TAG_STRING_SIZE then Return RET_ERR_TAG s
         else if save_previous \<le> length (tag_str s)
                 \<and> length (tag_str s) + 1 + length tag < RET_MAX_TAG_STRING_SIZE
         then Return RET_PASS
                (s\<lparr>tag_ptr := new_ptr,
                   tag_str := tag_str s @ [RET_TOKEN_DELIMITER] @ tag,
                   nest := u32 (nest s + 1)\<rparr>)
         else Fault)"

text \<open>
  \<^verbatim>\<open>retRemoveTag\<close>. The terminator is stored at the saved position; a position
  beyond the end of the path is outside what \<open>tag_str\<close> keeps.
\<close>

definition retRemoveTag :: "nat \<Rightarrow> ret_state \<Rightarrow> unit outcome" where
  "retRemoveTag nest_val s =
     (if nest_val \<ge> RET_MAX_NEST_SIZE then Return () s
      else if env_tag_ptr s nest_val \<le> length (tag_str s)
      then Return ()
             (s\<lparr>tag_ptr := env_tag_ptr s nest_val,
                tag_str := take (env_tag_ptr s nest_val) (tag_str s),
                nest := nest_val\<rparr>)
      else Fault)"

subsection \<open>The tick source\<close>

definition RET_SYS_TICK_FUNC :: "ret_state \<Rightarrow> nat \<times> ret_state" where
  "RET_SYS_TICK_FUNC s =
     (case sys_tick s of
        [] \<Rightarrow> (0, s)
      | t # ts \<Rightarrow> (u32 t, s\<lparr>sys_tick := ts\<rparr>))"

subsection \<open>Assertions and leaf functions\<close>

definition assert_buf :: "int \<Rightarrow> string \<Rightarrow> int \<Rightarrow> string option" where
  "assert_buf line_number file_name rv =
     (case retConvIntToDecAscii line_number of
        None \<Rightarrow> None
      | Some line_str \<Rightarrow>
          (case retConvIntToDecAscii rv of
             None \<Rightarrow> None
           | Some rv_str \<Rightarrow>
               Some (''Assert at line '' @ line_str @ '' of '' @ file_name
                       @ '' == '' @ rv_str)))"

text \<open>
  \<^verbatim>\<open>retAssert\<close>. The message is built in a local array of 128 bytes; the jump goes
  to the environment of slot \<^verbatim>\<open>ret.nest - 1\<close>, with the value -1.
\<close>

definition retAssert :: "bool \<Rightarrow> int \<Rightarrow> string \<Rightarrow> ret_state \<Rightarrow> unit outcome" where
  "retAssert assert_condition line_number file_name s =
     (if assert_condition then Return () s
      else
        (case assert_buf line_number file_name (retval (param s)) of
           None \<Rightarrow> Fault
         | Some msg \<Rightarrow>
             if \<not> length msg < 128 then Fault
             else
               (let s1 = retInfoLineFmt msg s
                in if nest s1 = 0 \<or> \<not> nest s1 - 1 < RET_MAX_NEST_SIZE then Fault
                   else Longjmp (nest s1 - 1) (- 1) s1)))"

fun run_stmts :: "stmt list \<Rightarrow> ret_val_t \<Rightarrow> ret_state \<Rightarrow> ret_val_t outcome" where
  "run_stmts [] rv s = Return rv s"
| "run_stmts (RET_ASSERT c l f # rest) rv s =
     (case retAssert c l f s of
        Return u s1 \<Rightarrow> run_stmts rest rv s1
      | Longjmp k v s1 \<Rightarrow> Longjmp k v s1
      | Fault \<Rightarrow> Fault)"
| "run_stmts (InfoLineFmt str # rest) rv s = run_stmts rest rv (retInfoLineFmt str s)"
| "run_stmts (InfoLine str pause # rest) rv s = run_stmts rest rv (retInfoLine str pause s)"
| "run_stmts (SetRetval v # rest) rv s =
     run_stmts rest rv (s\<lparr>param := (param s)\<lparr>retval := v\<rparr>\<rparr>)"

text \<open>A leaf: the \<^verbatim>\<open>RET_MODE_SEARCH()\<close> guard, then the body.\<close>

definition leaf_func :: "stmt list \<Rightarrow> ret_val_t \<Rightarrow> ret_state \<Rightarrow> ret_val_t outcome" where
  "leaf_func body rv s =
     (if mode (param s) = RET_MODE_SEARCH \<or> mode (param s) = RET_MODE_SKIP
      then Return RET_PASS s
      else run_stmts body rv (s\<lparr>events := EvBody (tag_str s) # events s\<rparr>))"

subsection \<open>Entering and leaving a node\<close>

text \<open>The mode switch of \<^verbatim>\<open>retEnter\<close>, between the append and the call.\<close>

definition retEnter_mode :: "ret_state \<Rightarrow> unit outcome" where
  "retEnter_mode s =
     (if mode (param s) \<noteq> RET_MODE_SEARCH then
        (case retFindTagToken s of
           (False, s1) \<Rightarrow>
             Return () (if mode (param s1) = RET_MODE_EXE
                        then s1\<lparr>param := (param s1)\<lparr>mode := RET_MODE_SKIP\<rparr>\<rparr> else s1)
         | (True, s1) \<Rightarrow>
             (let s2 = (if mode (param s1) = RET_MODE_SKIP
                        then s1\<lparr>param := (param s1)\<lparr>mode := RET_MODE_EXE\<rparr>\<rparr> else s1)
              in if nest s2 = 0 \<or> \<not> nest s2 - 1 < RET_MAX_NEST_SIZE then Fault
                 else (case RET_SYS_TICK_FUNC s2 of
                         (now, s3) \<Rightarrow>
                           Return () (s3\<lparr>env_timer := (env_timer s3)(nest s3 - 1 := now)\<rparr>))))
      else Return () s)"

text \<open>The report of \<^verbatim>\<open>retExit\<close> for a node whose path holds the target.\<close>

definition retExit_report :: "ret_val_t \<Rightarrow> ret_state \<Rightarrow> unit outcome" where
  "retExit_report rv s =
     (case retFindTagToken s of
        (False, s1) \<Rightarrow> Return () s1
      | (True, s1) \<Rightarrow>
          if mode (param s1) \<noteq> RET_MODE_SEARCH then
            (if nest s1 = 0 \<or> \<not> nest s1 - 1 < RET_MAX_NEST_SIZE then Fault
             else (case RET_SYS_TICK_FUNC s1 of
                     (now, s2) \<Rightarrow>
                       Return ()
                         (retTestLineFormat rv
                            (u32 (now + 4294967296 - env_timer s2 (nest s2 - 1))) s2)))
          else Return () (retSearchLine (tag_str s1) s1))"

text \<open>The end of the test, reached by \<^verbatim>\<open>retExit\<close> when \<^verbatim>\<open>ret.nest\<close> is 0.\<close>

definition retExit_done :: "ret_state \<Rightarrow> ret_state" where
  "retExit_done s =
     (if tag_found (param s) = 0 \<and> test_tag (param s) \<noteq> RET_ROOT_TAG
      then retInfoLine RET_PATH_ERR_MSG RET_PAUSE (s\<lparr>events := EvPathNotFound # events s\<rparr>)
      else retSendBuffer
             (retPutString RET_TEST_DONE_MSG
                (retPutLineFeed (s\<lparr>events := EvDone # events s\<rparr>))))"

text \<open>
  \<^verbatim>\<open>retExit\<close>. \<^verbatim>\<open>longjmp\<close> with the value 0 makes \<^verbatim>\<open>setjmp\<close> return 1.
\<close>

definition retExit :: "ret_val_t \<Rightarrow> ret_state \<Rightarrow> unit outcome" where
  "retExit rv s =
     (if rv = RET_ERR_TAG then Return () (retTestLineFormat rv 0 s)
      else
        (case retExit_report rv s of
           Return u s1 \<Rightarrow>
             if tag_str s1 = test_tag (param s1) then
               (case retRemoveTag 0 s1 of
                  Return u s2 \<Rightarrow>
                    Longjmp 0 (if ret_val_int rv = 0 then 1 else int (ret_val_int rv)) s2
                | Longjmp k v s2 \<Rightarrow> Longjmp k v s2
                | Fault \<Rightarrow> Fault)
             else
               (case (if nest s1 \<noteq> 0 then retRemoveTag (nest s1 - 1) s1 else Return () s1) of
                  Return u s2 \<Rightarrow> Return () (if nest s2 = 0 then retExit_done s2 else s2)
                | Longjmp k v s2 \<Rightarrow> Longjmp k v s2
                | Fault \<Rightarrow> Fault)
         | Longjmp k v s1 \<Rightarrow> Longjmp k v s1
         | Fault \<Rightarrow> Fault))"

subsection \<open>The list executor\<close>

text \<open>The \<^verbatim>\<open>switch\<close> on the value that \<^verbatim>\<open>setjmp\<close> returns after a jump.\<close>

definition longjmp_retval :: "int \<Rightarrow> ret_val_t" where
  "longjmp_retval longjmp_val = (if longjmp_val = - 1 then RET_FAIL else RET_PASS)"

text \<open>
  The rest of one turn of the loop once the result of the node is known: the error
  flag, then \<^verbatim>\<open>retExit\<close>. A jump out of \<^verbatim>\<open>retExit\<close> to the slot \<open>lvl\<close> that this
  turn armed comes back through \<^verbatim>\<open>setjmp\<close> to the same place, with the result
  that the \<^verbatim>\<open>switch\<close> gives; nothing bounds how often, so the function is partial
  and \<open>None\<close> stands for a turn that never ends.
\<close>

partial_function (option) retExecuteList_exit ::
  "nat \<Rightarrow> ret_val_t \<Rightarrow> ret_val_t \<Rightarrow> ret_state \<Rightarrow> ret_val_t outcome option" where
  "retExecuteList_exit lvl rv err_flag s =
     (case retExit rv (s\<lparr>events := EvResult lvl rv # events s\<rparr>) of
        Return u s1 \<Rightarrow> Some (Return (if rv \<noteq> RET_PASS then RET_FAIL else err_flag) s1)
      | Longjmp k v s1 \<Rightarrow>
          if k = lvl
          then retExecuteList_exit lvl (longjmp_retval v)
                 (if rv \<noteq> RET_PASS then RET_FAIL else err_flag) s1
          else Some (Longjmp k v s1)
      | Fault \<Rightarrow> Some Fault)"

text \<open>
  What a turn of the loop does with the outcome of \<^verbatim>\<open>retEnter\<close>: a return gives
  the result of the node; a jump to the slot \<open>lvl\<close> that the turn armed gives the
  result of the \<^verbatim>\<open>switch\<close>; a jump to another slot passes through the frame.
\<close>

definition retExecuteList_catch ::
  "nat \<Rightarrow> ret_val_t \<Rightarrow> ret_val_t outcome option \<Rightarrow> ret_val_t outcome option" where
  "retExecuteList_catch lvl err_flag r =
     (case r of
        None \<Rightarrow> None
      | Some (Return rv s1) \<Rightarrow> retExecuteList_exit lvl rv err_flag s1
      | Some (Longjmp k v s1) \<Rightarrow>
          if k = lvl then retExecuteList_exit lvl (longjmp_retval v) err_flag s1
          else Some (Longjmp k v s1)
      | Some Fault \<Rightarrow> Some Fault)"

text \<open>
  \<^verbatim>\<open>retExecuteList\<close>, its loop, one turn of the loop, \<^verbatim>\<open>retEnter\<close> and the call
  of a test function. Each turn arms the slot \<^verbatim>\<open>ret_env[ret.nest]\<close>.
\<close>

fun retExecuteList :: "ret_test_t list \<Rightarrow> ret_state \<Rightarrow> ret_val_t outcome option"
  and retExecuteList_loop ::
    "ret_test_t list \<Rightarrow> ret_val_t \<Rightarrow> ret_state \<Rightarrow> ret_val_t outcome option"
  and retExecuteList_turn ::
    "ret_test_t \<Rightarrow> ret_val_t \<Rightarrow> ret_state \<Rightarrow> ret_val_t outcome option"
  and retEnter :: "ret_test_t \<Rightarrow> ret_state \<Rightarrow> ret_val_t outcome option"
  and call_func :: "ret_func \<Rightarrow> ret_state \<Rightarrow> ret_val_t outcome option"
where
  "retExecuteList list s =
     (if nest s \<ge> RET_MAX_NEST_SIZE
      then Some (Return RET_FAIL (retInfoLineFmt RET_LAYER_ERR_MSG s))
      else
        (case retExecuteList_loop list RET_PASS
                (s\<lparr>env_tag_ptr := (env_tag_ptr s)(nest s := tag_ptr s)\<rparr>) of
           None \<Rightarrow> None
         | Some (Return err_flag s1) \<Rightarrow> Some (Return err_flag (s1\<lparr>is_pause := is_pause s\<rparr>))
         | Some (Longjmp k v s1) \<Rightarrow> Some (Longjmp k v s1)
         | Some Fault \<Rightarrow> Some Fault))"
| "retExecuteList_loop [] err_flag s = Some (Return err_flag s)"
| "retExecuteList_loop (test # rest) err_flag s =
     (case retExecuteList_turn test err_flag s of
        None \<Rightarrow> None
      | Some (Return err_flag1 s1) \<Rightarrow> retExecuteList_loop rest err_flag1 s1
      | Some (Longjmp k v s1) \<Rightarrow> Some (Longjmp k v s1)
      | Some Fault \<Rightarrow> Some Fault)"
| "retExecuteList_turn test err_flag s =
     (if \<not> nest s < RET_MAX_NEST_SIZE then Some Fault
      else retExecuteList_catch (nest s) err_flag (retEnter test s))"
| "retEnter (Test func tag) s =
     (case retAddTag tag s of
        Return r s1 \<Rightarrow>
          if r = RET_ERR_TAG
          then Some (Return RET_ERR_TAG (retInfoLineFmt RET_TAG_ERR_MSG s1))
          else
            (case retEnter_mode s1 of
               Return u s2 \<Rightarrow> call_func func (s2\<lparr>events := EvCall (tag_str s2) # events s2\<rparr>)
             | Longjmp k v s2 \<Rightarrow> Some (Longjmp k v s2)
             | Fault \<Rightarrow> Some Fault)
      | Longjmp k v s1 \<Rightarrow> Some (Longjmp k v s1)
      | Fault \<Rightarrow> Some Fault)"
| "call_func (Leaf body rv) s = Some (leaf_func body rv s)"
| "call_func (Branch list) s = retExecuteList list s"

text \<open>
  \<^verbatim>\<open>retStart\<close> with the user's \<^verbatim>\<open>mode\<close> and \<^verbatim>\<open>test_tag\<close>; \<open>RunTrunk\<close> is the
  function of the root test. The value of \<^verbatim>\<open>retExecuteList\<close> is dropped by the C
  function and kept here.
\<close>

definition retStart ::
  "ret_mode_t \<Rightarrow> string \<Rightarrow> ret_func \<Rightarrow> ret_state \<Rightarrow> ret_val_t outcome option" where
  "retStart m tg RunTrunk s =
     retExecuteList [Test RunTrunk RET_ROOT_TAG]
       (s\<lparr>next_line_number := 0,
          tag_str := [],
          tag_ptr := 0,
          nest := 0,
          is_pause := RET_PAUSE,
          buf := [],
          param := \<lparr>mode = m, test_tag = tg, tag_found = 0, retval = 0\<rparr>\<rparr>)"

text \<open>The static data before the first run, with the readings of the tick source.\<close>

definition power_on :: "nat list \<Rightarrow> ret_state" where
  "power_on ticks =
     \<lparr>next_line_number = 0, tag_str = [], tag_ptr = 0, nest = 0, buf = [],
      is_pause = False, env_tag_ptr = (\<lambda>i. 0), env_timer = (\<lambda>i. 0),
      param = \<lparr>mode = RET_MODE_EXE, test_tag = [], tag_found = 0, retval = 0\<rparr>,
      sent = [], sys_tick = ticks, stores = [], events = []\<rparr>"

subsection \<open>Notions used to state the properties\<close>

text \<open>
  The token test as the specification words it: the target occurs in the path at some
  offset, and the byte after the occurrence is the delimiter or the terminator.
\<close>

definition occurs_as_token :: "string \<Rightarrow> string \<Rightarrow> bool" where
  "occurs_as_token path target =
     list_ex
       (\<lambda>i. take (length target) (drop i path) = target
            \<and> (char_at path (i + length target) = RET_TOKEN_DELIMITER
               \<or> char_at path (i + length target) = CHR 0x00))
       [0..<Suc (length path)]"

text \<open>The state of a run that stands at a given tag path with a given target.\<close>

definition at_path :: "string \<Rightarrow> ret_mode_t \<Rightarrow> string \<Rightarrow> ret_state" where
  "at_path path m tg =
     (power_on [])\<lparr>tag_str := path, tag_ptr := length path,
       param := \<lparr>mode = m, test_tag = tg, tag_found = 0, retval = 0\<rparr>\<rparr>"

text \<open>What a run leaves behind: its events in the order they happened, and what the
  sink received.\<close>

definition run_events :: "ret_val_t outcome option \<Rightarrow> event list option" where
  "run_events r = (case r of Some (Return v s) \<Rightarrow> Some (rev (events s)) | _ \<Rightarrow> None)"

definition run_sent :: "ret_val_t outcome option \<Rightarrow> string list option" where
  "run_sent r = (case r of Some (Return v s) \<Rightarrow> Some (sent s) | _ \<Rightarrow> None)"

text \<open>Where an outcome jumps to, and with which value.\<close>

definition jump_of :: "'a outcome \<Rightarrow> (nat \<times> int) option" where
  "jump_of r = (case r of Longjmp k v s \<Rightarrow> Some (k, v) | _ \<Rightarrow> None)"

text \<open>A frame of the executor at nesting level 1, below the root: the path is
  \<open>@ROOT\<close> and slot 1 holds the cursor.\<close>

definition below_root :: "ret_mode_t \<Rightarrow> string \<Rightarrow> ret_state" where
  "below_root m tg =
     (at_path ''@ROOT'' m tg)\<lparr>nest := 1, env_tag_ptr := (\<lambda>i. 0)(1 := 5)\<rparr>"

text \<open>The indices of the stores of a run into the report buffer, the latest first.\<close>

definition run_stores :: "ret_val_t outcome option \<Rightarrow> nat list option" where
  "run_stores r = (case r of Some (Return v s) \<Rightarrow> Some (stores s) | _ \<Rightarrow> None)"

text \<open>The same info line written \<open>n\<close> times, as a leaf with \<open>n\<close> such calls does.\<close>

primrec repeat_info :: "nat \<Rightarrow> string \<Rightarrow> ret_state \<Rightarrow> ret_state" where
  "repeat_info 0 str s = s"
| "repeat_info (Suc n) str s = repeat_info n str (retInfoLineFmt str s)"

text \<open>The bytes of an info or search line and of a result line, as the formatter puts
  them into the buffer one by one.\<close>

definition line_text :: "char \<Rightarrow> nat \<Rightarrow> string \<Rightarrow> string" where
  "line_text msg_type n str =
     msg_type # CHR '','' # take 4 (dd_loop n 4 (replicate 10 (CHR '' '')))
       @ '',    ,      ,''
       @ (if length str > RET_MAX_TAG_STRING_SIZE
          then ''<string exceeds length limit>'' else str)
       @ [CHR 0x0A]"

definition test_line_text :: "ret_val_t \<Rightarrow> nat \<Rightarrow> nat \<Rightarrow> string \<Rightarrow> string" where
  "test_line_text rv n elapsed_time path =
     CHR ''T'' # CHR '','' # take 4 (dd_loop n 4 (replicate 10 (CHR '' '')))
       @ CHR '','' # RET_RETVAL_STR ! ret_val_int rv
       @ CHR '','' # take 6 (dd_loop elapsed_time 6 (replicate 10 (CHR '' '')))
       @ CHR '','' # path @ [CHR 0x0A]"

text \<open>Every byte the engine has put out so far, in order: what the sink has received,
  then what waits in the buffer.\<close>

definition report :: "ret_state \<Rightarrow> string" where
  "report s = concat (sent s) @ buf s"

text \<open>Whether the bytes that a run has put out hold a given string.\<close>

definition run_report_has :: "string \<Rightarrow> ret_val_t outcome option \<Rightarrow> bool option" where
  "run_report_has needle r =
     (case r of Some (Return v s) \<Rightarrow> Some (strstr (report s) needle \<noteq> None) | _ \<Rightarrow> None)"

subsection \<open>Well-formed trees and the invariant of the engine\<close>

text \<open>
  A statement of a leaf is well formed when its assertion message fits the array of
  128 bytes whatever the last result code is, and when the result code it stores is
  one whose negation is an \<^verbatim>\<open>int32_t\<close>. A leaf is well formed when its statements are
  and it does not return \<^verbatim>\<open>RET_ERR_TAG\<close>, the value by which \<^verbatim>\<open>retEnter\<close> tells
  \<^verbatim>\<open>retExit\<close> that no tag was appended.
\<close>

fun wf_stmt :: "stmt \<Rightarrow> bool" where
  "wf_stmt (RET_ASSERT c l f) =
     (c \<or> (case retConvIntToDecAscii l of None \<Rightarrow> False
            | Some line_str \<Rightarrow> length line_str + length f < 94))"
| "wf_stmt (SetRetval v) = (- 2147483647 \<le> v \<and> v \<le> 2147483647)"
| "wf_stmt (InfoLineFmt str) = True"
| "wf_stmt (InfoLine str pause) = True"

fun wf_func :: "ret_func \<Rightarrow> bool"
  and wf_test :: "ret_test_t \<Rightarrow> bool" where
  "wf_func (Leaf body rv) = (rv \<noteq> RET_ERR_TAG \<and> list_all wf_stmt body)"
| "wf_func (Branch list) = list_all wf_test list"
| "wf_test (Test func tag) = wf_func func"

text \<open>What every frame relies on: the cursor stands at the end of the path, and the
  last result code can be negated.\<close>

definition engine_inv :: "ret_state \<Rightarrow> bool" where
  "engine_inv s \<longleftrightarrow>
     tag_ptr s = length (tag_str s)
     \<and> - 2147483647 \<le> retval (param s) \<and> retval (param s) \<le> 2147483647"

text \<open>The events recorded between two states, the latest first; an event that a frame
  at level \<open>lvl\<close> or deeper may record; a stretch of such events; and whether a node of
  the list at level \<open>lvl\<close> gave a result other than pass in between.\<close>

definition new_events :: "ret_state \<Rightarrow> ret_state \<Rightarrow> event list" where
  "new_events s s' = take (length (events s') - length (events s)) (events s')"

fun inner_event :: "nat \<Rightarrow> event \<Rightarrow> bool" where
  "inner_event lvl EvDone = False"
| "inner_event lvl EvPathNotFound = False"
| "inner_event lvl (EvResult l rv) = (lvl \<le> l)"
| "inner_event lvl (EvCall p) = True"
| "inner_event lvl (EvBody p) = True"

definition quiet_from :: "nat \<Rightarrow> ret_state \<Rightarrow> ret_state \<Rightarrow> bool" where
  "quiet_from lvl s s' \<longleftrightarrow>
     events s' = new_events s s' @ events s \<and> list_all (inner_event lvl) (new_events s s')"

definition fails_at :: "nat \<Rightarrow> ret_state \<Rightarrow> ret_state \<Rightarrow> bool" where
  "fails_at lvl s s' \<longleftrightarrow>
     list_ex (\<lambda>e. case e of EvResult l rv \<Rightarrow> l = lvl \<and> rv \<noteq> RET_PASS | _ \<Rightarrow> False)
       (new_events s s')"

text \<open>A call that comes back to its frame leaves the path, the cursor, the depth and
  the saved cursors of the frames around it as they were; a jump to the root frame
  leaves the path cut at the cursor that the root frame saved.\<close>

definition same_frame :: "nat \<Rightarrow> ret_state \<Rightarrow> ret_state \<Rightarrow> bool" where
  "same_frame k s s' \<longleftrightarrow>
     nest s' = nest s \<and> tag_str s' = tag_str s \<and> tag_ptr s' = tag_ptr s
     \<and> (\<forall>i<k. env_tag_ptr s' i = env_tag_ptr s i)
     \<and> test_tag (param s') = test_tag (param s) \<and> engine_inv s'"

definition unwound :: "ret_state \<Rightarrow> ret_state \<Rightarrow> bool" where
  "unwound s s' \<longleftrightarrow>
     nest s' = 0 \<and> tag_str s' = take (env_tag_ptr s 0) (tag_str s)
     \<and> tag_ptr s' = env_tag_ptr s 0 \<and> env_tag_ptr s' 0 = env_tag_ptr s 0
     \<and> test_tag (param s') = test_tag (param s) \<and> engine_inv s'
     \<and> length (tag_str s') < length (test_tag (param s'))"

text \<open>The state in which the function of a node is left: one level below the frame,
  with the tag of the node appended.\<close>

fun tag_of :: "ret_test_t \<Rightarrow> string" where
  "tag_of (Test func tag) = tag"

definition entered :: "string \<Rightarrow> ret_state \<Rightarrow> ret_state \<Rightarrow> bool" where
  "entered tag s s' \<longleftrightarrow>
     nest s' = Suc (nest s) \<and> tag_str s' = tag_str s @ RET_TOKEN_DELIMITER # tag
     \<and> (\<forall>i\<le>nest s. env_tag_ptr s' i = env_tag_ptr s i)
     \<and> test_tag (param s') = test_tag (param s) \<and> engine_inv s'
     \<and> quiet_from (Suc (nest s)) s s'"

text \<open>The state of a frame below the root while its loop runs, and at the call of a
  test function.\<close>

definition frame_pre :: "ret_state \<Rightarrow> bool" where
  "frame_pre s \<longleftrightarrow>
     engine_inv s \<and> 0 < nest s \<and> nest s < RET_MAX_NEST_SIZE
     \<and> env_tag_ptr s (nest s) = tag_ptr s \<and> env_tag_ptr s 0 \<le> length (tag_str s)"

definition call_pre :: "ret_state \<Rightarrow> bool" where
  "call_pre s \<longleftrightarrow>
     engine_inv s \<and> 0 < nest s \<and> nest s \<le> RET_MAX_NEST_SIZE
     \<and> env_tag_ptr s 0 \<le> length (tag_str s)"

text \<open>What one turn of the loop, a whole list, a test function and \<^verbatim>\<open>retEnter\<close> give
  back: a return to the frame or a jump to the root frame, never a fault.\<close>

definition turn_post :: "ret_val_t \<Rightarrow> ret_state \<Rightarrow> ret_val_t outcome \<Rightarrow> bool" where
  "turn_post err s r =
     (case r of
        Return e s' \<Rightarrow>
          same_frame (Suc (nest s)) s s' \<and> quiet_from (nest s) s s'
          \<and> e = (if err = RET_FAIL \<or> fails_at (nest s) s s' then RET_FAIL else err)
      | Longjmp k v s' \<Rightarrow> k = 0 \<and> v \<noteq> - 1 \<and> unwound s s' \<and> quiet_from (nest s) s s'
      | Fault \<Rightarrow> False)"

definition list_post :: "ret_state \<Rightarrow> ret_val_t outcome \<Rightarrow> bool" where
  "list_post s r =
     (case r of
        Return e s' \<Rightarrow>
          same_frame (nest s) s s' \<and> quiet_from (nest s) s s'
          \<and> (e = RET_PASS \<or> e = RET_FAIL)
          \<and> (nest s < RET_MAX_NEST_SIZE \<longrightarrow> (e = RET_FAIL \<longleftrightarrow> fails_at (nest s) s s'))
      | Longjmp k v s' \<Rightarrow> k = 0 \<and> v \<noteq> - 1 \<and> unwound s s' \<and> quiet_from (nest s) s s'
      | Fault \<Rightarrow> False)"

definition call_post :: "ret_state \<Rightarrow> ret_val_t outcome \<Rightarrow> bool" where
  "call_post s r =
     (case r of
        Return rv s' \<Rightarrow>
          rv \<noteq> RET_ERR_TAG \<and> same_frame (nest s) s s' \<and> quiet_from (nest s) s s'
      | Longjmp k v s' \<Rightarrow>
          (v = - 1 \<and> k = nest s - 1 \<and> same_frame (nest s) s s' \<and> quiet_from (nest s) s s')
          \<or> (v \<noteq> - 1 \<and> k = 0 \<and> unwound s s' \<and> quiet_from (nest s) s s')
      | Fault \<Rightarrow> False)"

definition enter_post :: "string \<Rightarrow> ret_state \<Rightarrow> ret_val_t outcome \<Rightarrow> bool" where
  "enter_post tag s r =
     (case r of
        Return rv s' \<Rightarrow>
          (rv = RET_ERR_TAG \<and> same_frame (Suc (nest s)) s s' \<and> events s' = events s)
          \<or> (rv \<noteq> RET_ERR_TAG \<and> entered tag s s')
      | Longjmp k v s' \<Rightarrow>
          (v = - 1 \<and> k = nest s \<and> entered tag s s')
          \<or> (v \<noteq> - 1 \<and> k = 0 \<and> unwound s s' \<and> quiet_from (Suc (nest s)) s s')
      | Fault \<Rightarrow> False)"

section \<open>The report functions leave the engine's data alone\<close>

lemma retSendBuffer_engine [simp]:
  "tag_str (retSendBuffer s) = tag_str s"
  "tag_ptr (retSendBuffer s) = tag_ptr s"
  "nest (retSendBuffer s) = nest s"
  "env_tag_ptr (retSendBuffer s) = env_tag_ptr s"
  "env_timer (retSendBuffer s) = env_timer s"
  "param (retSendBuffer s) = param s"
  "sys_tick (retSendBuffer s) = sys_tick s"
  "events (retSendBuffer s) = events s"
  "is_pause (retSendBuffer s) = is_pause s"
  "next_line_number (retSendBuffer s) = next_line_number s"
  by (simp_all add: retSendBuffer_def)

lemma retPutChar_engine [simp]:
  "tag_str (retPutChar c s) = tag_str s"
  "tag_ptr (retPutChar c s) = tag_ptr s"
  "nest (retPutChar c s) = nest s"
  "env_tag_ptr (retPutChar c s) = env_tag_ptr s"
  "env_timer (retPutChar c s) = env_timer s"
  "param (retPutChar c s) = param s"
  "sys_tick (retPutChar c s) = sys_tick s"
  "events (retPutChar c s) = events s"
  "is_pause (retPutChar c s) = is_pause s"
  "next_line_number (retPutChar c s) = next_line_number s"
  by (simp_all add: retPutChar_def Let_def)

lemma retPutString_engine [simp]:
  "tag_str (retPutString str s) = tag_str s"
  "tag_ptr (retPutString str s) = tag_ptr s"
  "nest (retPutString str s) = nest s"
  "env_tag_ptr (retPutString str s) = env_tag_ptr s"
  "env_timer (retPutString str s) = env_timer s"
  "param (retPutString str s) = param s"
  "sys_tick (retPutString str s) = sys_tick s"
  "events (retPutString str s) = events s"
  "is_pause (retPutString str s) = is_pause s"
  "next_line_number (retPutString str s) = next_line_number s"
  by (induction str arbitrary: s; simp)+

lemma retPutLineFeed_engine [simp]:
  "tag_str (retPutLineFeed s) = tag_str s"
  "tag_ptr (retPutLineFeed s) = tag_ptr s"
  "nest (retPutLineFeed s) = nest s"
  "env_tag_ptr (retPutLineFeed s) = env_tag_ptr s"
  "env_timer (retPutLineFeed s) = env_timer s"
  "param (retPutLineFeed s) = param s"
  "sys_tick (retPutLineFeed s) = sys_tick s"
  "events (retPutLineFeed s) = events s"
  "is_pause (retPutLineFeed s) = is_pause s"
  "next_line_number (retPutLineFeed s) = next_line_number s"
  by (simp_all add: retPutLineFeed_def)

lemma retPutCommaSeparator_engine [simp]:
  "tag_str (retPutCommaSeparator s) = tag_str s"
  "tag_ptr (retPutCommaSeparator s) = tag_ptr s"
  "nest (retPutCommaSeparator s) = nest s"
  "env_tag_ptr (retPutCommaSeparator s) = env_tag_ptr s"
  "env_timer (retPutCommaSeparator s) = env_timer s"
  "param (retPutCommaSeparator s) = param s"
  "sys_tick (retPutCommaSeparator s) = sys_tick s"
  "events (retPutCommaSeparator s) = events s"
  "is_pause (retPutCommaSeparator s) = is_pause s"
  "next_line_number (retPutCommaSeparator s) = next_line_number s"
  by (simp_all add: retPutCommaSeparator_def)

lemma retDecimalDigits_engine [simp]:
  "tag_str (retDecimalDigits v w s) = tag_str s"
  "tag_ptr (retDecimalDigits v w s) = tag_ptr s"
  "nest (retDecimalDigits v w s) = nest s"
  "env_tag_ptr (retDecimalDigits v w s) = env_tag_ptr s"
  "env_timer (retDecimalDigits v w s) = env_timer s"
  "param (retDecimalDigits v w s) = param s"
  "sys_tick (retDecimalDigits v w s) = sys_tick s"
  "events (retDecimalDigits v w s) = events s"
  "is_pause (retDecimalDigits v w s) = is_pause s"
  "next_line_number (retDecimalDigits v w s) = next_line_number s"
  by (simp_all add: retDecimalDigits_def)

lemma retFormatLine_engine [simp]:
  "tag_str (retFormatLine t str p s) = tag_str s"
  "tag_ptr (retFormatLine t str p s) = tag_ptr s"
  "nest (retFormatLine t str p s) = nest s"
  "env_tag_ptr (retFormatLine t str p s) = env_tag_ptr s"
  "env_timer (retFormatLine t str p s) = env_timer s"
  "param (retFormatLine t str p s) = param s"
  "sys_tick (retFormatLine t str p s) = sys_tick s"
  "events (retFormatLine t str p s) = events s"
  "is_pause (retFormatLine t str p s) = is_pause s"
  "next_line_number (retFormatLine t str p s) = u32 (next_line_number s + 1)"
  by (simp_all add: retFormatLine_def Let_def)

lemma retInfoLine_engine [simp]:
  "tag_str (retInfoLine str p s) = tag_str s"
  "tag_ptr (retInfoLine str p s) = tag_ptr s"
  "nest (retInfoLine str p s) = nest s"
  "env_tag_ptr (retInfoLine str p s) = env_tag_ptr s"
  "env_timer (retInfoLine str p s) = env_timer s"
  "param (retInfoLine str p s) = param s"
  "sys_tick (retInfoLine str p s) = sys_tick s"
  "events (retInfoLine str p s) = events s"
  "is_pause (retInfoLine str p s) = is_pause s"
  "next_line_number (retInfoLine str p s) = u32 (next_line_number s + 1)"
  by (simp_all add: retInfoLine_def)

lemma retInfoLineFmt_engine [simp]:
  "tag_str (retInfoLineFmt str s) = tag_str s"
  "tag_ptr (retInfoLineFmt str s) = tag_ptr s"
  "nest (retInfoLineFmt str s) = nest s"
  "env_tag_ptr (retInfoLineFmt str s) = env_tag_ptr s"
  "env_timer (retInfoLineFmt str s) = env_timer s"
  "param (retInfoLineFmt str s) = param s"
  "sys_tick (retInfoLineFmt str s) = sys_tick s"
  "events (retInfoLineFmt str s) = events s"
  "is_pause (retInfoLineFmt str s) = is_pause s"
  "next_line_number (retInfoLineFmt str s) = u32 (next_line_number s + 1)"
  by (simp_all add: retInfoLineFmt_def)

lemma retSearchLine_engine [simp]:
  "tag_str (retSearchLine str s) = tag_str s"
  "tag_ptr (retSearchLine str s) = tag_ptr s"
  "nest (retSearchLine str s) = nest s"
  "env_tag_ptr (retSearchLine str s) = env_tag_ptr s"
  "env_timer (retSearchLine str s) = env_timer s"
  "param (retSearchLine str s) = param s"
  "sys_tick (retSearchLine str s) = sys_tick s"
  "events (retSearchLine str s) = events s"
  "is_pause (retSearchLine str s) = is_pause s"
  "next_line_number (retSearchLine str s) = u32 (next_line_number s + 1)"
  by (simp_all add: retSearchLine_def)

lemma retTestLineFormat_engine [simp]:
  "tag_str (retTestLineFormat rv e s) = tag_str s"
  "tag_ptr (retTestLineFormat rv e s) = tag_ptr s"
  "nest (retTestLineFormat rv e s) = nest s"
  "env_tag_ptr (retTestLineFormat rv e s) = env_tag_ptr s"
  "env_timer (retTestLineFormat rv e s) = env_timer s"
  "param (retTestLineFormat rv e s) = param s"
  "sys_tick (retTestLineFormat rv e s) = sys_tick s"
  "events (retTestLineFormat rv e s) = events s"
  "is_pause (retTestLineFormat rv e s) = is_pause s"
  "next_line_number (retTestLineFormat rv e s) = u32 (next_line_number s + 1)"
  by (simp_all add: retTestLineFormat_def Let_def)

section \<open>Unfolding and evaluation\<close>

declare dd_loop.simps [simp del] conv_loop.simps [simp del]

lemmas cfg_defs = RET_MAX_TAG_STRING_SIZE_def RET_MAX_NEST_SIZE_def
  RET_ROOT_TAG_def RET_PAUSE_def RET_NO_PAUSE_def RET_TOKEN_DELIMITER_def u32_def

lemmas eng_defs = char_at_def retFindTagToken_def retAddTag_def retRemoveTag_def
  RET_SYS_TICK_FUNC_def retAssert_def leaf_func_def retEnter_mode_def
  retExit_report_def retExit_done_def retExit_def longjmp_retval_def retExecuteList_catch_def
  retStart_def power_on_def run_events_def at_path_def

section \<open>Steps of the engine\<close>

lemma retExecuteList_exit_tag_error:
  "retExecuteList_exit lvl RET_ERR_TAG err_flag s =
     Some (Return RET_FAIL
             (retTestLineFormat RET_ERR_TAG 0 (s\<lparr>events := EvResult lvl RET_ERR_TAG # events s\<rparr>)))"
  by (subst retExecuteList_exit.simps) (simp add: retExit_def)

lemma retExit_report_no_jump: "retExit_report rv s \<noteq> Longjmp k v s'"
  by (auto simp: retExit_report_def retFindTagToken_def RET_SYS_TICK_FUNC_def
           split: option.splits if_splits list.splits prod.splits)

lemma retRemoveTag_no_jump: "retRemoveTag n s \<noteq> Longjmp k v s'"
  by (simp add: retRemoveTag_def)

lemma retEnter_mode_Return:
  assumes "retEnter_mode s = Return u s'"
  shows "tag_str s' = tag_str s" "tag_ptr s' = tag_ptr s" "nest s' = nest s"
    "env_tag_ptr s' = env_tag_ptr s" "events s' = events s"
    "test_tag (param s') = test_tag (param s)" "retval (param s') = retval (param s)"
    "buf s' = buf s" "sent s' = sent s" "stores s' = stores s" "is_pause s' = is_pause s"
    "next_line_number s' = next_line_number s"
  using assms
  by (auto simp: retEnter_mode_def retFindTagToken_def RET_SYS_TICK_FUNC_def
           split: option.splits if_splits list.splits prod.splits)

lemma retEnter_mode_no_jump: "retEnter_mode s \<noteq> Longjmp k v s'"
  by (auto simp: retEnter_mode_def retFindTagToken_def RET_SYS_TICK_FUNC_def Let_def
           split: option.splits if_splits list.splits prod.splits)

lemma retExit_report_Return:
  assumes "retExit_report rv s = Return u s'"
  shows "tag_str s' = tag_str s" "tag_ptr s' = tag_ptr s" "nest s' = nest s"
    "env_tag_ptr s' = env_tag_ptr s" "events s' = events s"
    "test_tag (param s') = test_tag (param s)" "retval (param s') = retval (param s)"
    "mode (param s') = mode (param s)" "is_pause s' = is_pause s"
  using assms
  by (auto simp: retExit_report_def retFindTagToken_def RET_SYS_TICK_FUNC_def
           split: option.splits if_splits list.splits prod.splits)

lemma retExit_report_ok:
  assumes "0 < nest s" "nest s \<le> RET_MAX_NEST_SIZE"
  shows "\<exists>s'. retExit_report rv s = Return () s'"
  using assms
  by (auto simp: retExit_report_def retFindTagToken_def RET_SYS_TICK_FUNC_def
           split: option.splits if_splits list.splits prod.splits)


lemma sent_retPutChar_quiet: "\<not> is_pause s \<Longrightarrow> sent (retPutChar c s) = sent s"
  by (simp add: retPutChar_def)

lemma sent_retPutString_quiet: "\<not> is_pause s \<Longrightarrow> sent (retPutString str s) = sent s"
  by (induction str arbitrary: s) (simp_all add: sent_retPutChar_quiet)

lemma sent_retDecimalDigits_quiet: "\<not> is_pause s \<Longrightarrow> sent (retDecimalDigits v w s) = sent s"
  by (simp add: retDecimalDigits_def sent_retPutString_quiet)

lemma sent_retFormatLine_quiet: "sent (retFormatLine t str False s) = sent s"
  by (simp add: retFormatLine_def Let_def retPutCommaSeparator_def retPutLineFeed_def
      sent_retPutChar_quiet sent_retPutString_quiet sent_retDecimalDigits_quiet)

section \<open>The bytes in the report buffer\<close>

lemma retPutChar_full: "RET_REPORT_BUF_SIZE \<le> length (buf s) \<Longrightarrow> retPutChar c s = s"
  by (simp add: retPutChar_def)

lemma retPutString_full: "RET_REPORT_BUF_SIZE \<le> length (buf s) \<Longrightarrow> retPutString str s = s"
  by (induction str arbitrary: s) (simp_all add: retPutChar_full)

lemma retDecimalDigits_full:
  "RET_REPORT_BUF_SIZE \<le> length (buf s) \<Longrightarrow> retDecimalDigits v w s = s"
  by (simp add: retDecimalDigits_def retPutString_full)

lemma retTestLineFormat_full:
  "RET_REPORT_BUF_SIZE \<le> length (buf s) \<Longrightarrow>
   retTestLineFormat rv e s = s\<lparr>next_line_number := u32 (next_line_number s + 1)\<rparr>"
  by (simp add: retTestLineFormat_def Let_def retPutChar_full retPutString_full
      retDecimalDigits_full retPutCommaSeparator_def retPutLineFeed_def)

lemma buf_retPutChar_quiet:
  "\<not> is_pause s \<Longrightarrow> length (buf s) \<le> RET_REPORT_BUF_SIZE \<Longrightarrow>
   buf (retPutChar c s) = take RET_REPORT_BUF_SIZE (buf s @ [c])"
  by (simp add: retPutChar_def)

lemma take_take_append: "take n (take n ys @ zs) = take n (ys @ zs)"
  by (cases "length ys \<le> n") simp_all

lemma buf_retPutString_quiet:
  "\<not> is_pause s \<Longrightarrow> length (buf s) \<le> RET_REPORT_BUF_SIZE \<Longrightarrow>
   buf (retPutString str s) = take RET_REPORT_BUF_SIZE (buf s @ str)"
proof (induction str arbitrary: s)
  case Nil
  then show ?case by simp
next
  case (Cons c cs)
  have "buf (retPutString cs (retPutChar c s))
          = take RET_REPORT_BUF_SIZE (buf (retPutChar c s) @ cs)"
    using Cons.prems by (intro Cons.IH) (simp_all add: buf_retPutChar_quiet)
  also have "\<dots> = take RET_REPORT_BUF_SIZE (buf s @ c # cs)"
    using Cons.prems take_take_append [of RET_REPORT_BUF_SIZE "buf s @ [c]" cs]
    by (simp add: buf_retPutChar_quiet)
  finally show ?case by simp
qed

lemma length_dd_loop: "length (dd_loop v ch work) = length work"
  by (induction v ch work rule: dd_loop.induct) (subst dd_loop.simps, simp add: Let_def)


lemma retPutString_append:
  "retPutString (xs @ ys) s = retPutString ys (retPutString xs s)"
  by (induction xs arbitrary: s) simp_all

lemma retPutChar_line_number:
  "retPutChar c (s\<lparr>next_line_number := n\<rparr>) = (retPutChar c s)\<lparr>next_line_number := n\<rparr>"
  by (simp add: retPutChar_def retSendBuffer_def Let_def)

lemma retPutString_line_number:
  "retPutString str (s\<lparr>next_line_number := n\<rparr>) = (retPutString str s)\<lparr>next_line_number := n\<rparr>"
  by (induction str arbitrary: s) (simp_all add: retPutChar_line_number)

lemma retFormatLine_eq:
  "retFormatLine t str p s =
     (retPutString (line_text t (next_line_number s) str)
        (s\<lparr>is_pause := p, next_line_number := u32 (next_line_number s + 1)\<rparr>))
       \<lparr>is_pause := is_pause s\<rparr>"
  by (simp add: retFormatLine_def line_text_def Let_def retPutString_append
      retPutCommaSeparator_def retPutLineFeed_def retDecimalDigits_def
      retPutChar_line_number retPutString_line_number)

lemma retTestLineFormat_eq:
  "retTestLineFormat rv e s =
     retPutString (test_line_text rv (next_line_number s) e (tag_str s))
       (s\<lparr>next_line_number := u32 (next_line_number s + 1)\<rparr>)"
  by (simp add: retTestLineFormat_def test_line_text_def Let_def retPutString_append
      retPutCommaSeparator_def retPutLineFeed_def retDecimalDigits_def
      retPutChar_line_number retPutString_line_number)

lemma length_line_text:
  "length (line_text t n str) =
     20 + (if length str > RET_MAX_TAG_STRING_SIZE then 29 else length str)"
  by (simp add: line_text_def length_dd_loop)

lemma buf_retInfoLineFmt:
  "length (buf s) \<le> RET_REPORT_BUF_SIZE \<Longrightarrow>
   buf (retInfoLineFmt str s)
     = take RET_REPORT_BUF_SIZE (buf s @ line_text (CHR ''I'') (next_line_number s) str)"
  by (simp add: retInfoLineFmt_def retInfoLine_def retFormatLine_eq RET_NO_PAUSE_def
      buf_retPutString_quiet)

lemma sent_retInfoLineFmt: "sent (retInfoLineFmt str s) = sent s"
  by (simp add: retInfoLineFmt_def retInfoLine_def RET_NO_PAUSE_def sent_retFormatLine_quiet)

lemma repeat_info_engine [simp]:
  "tag_str (repeat_info n str s) = tag_str s"
  "tag_ptr (repeat_info n str s) = tag_ptr s"
  "nest (repeat_info n str s) = nest s"
  "env_tag_ptr (repeat_info n str s) = env_tag_ptr s"
  "env_timer (repeat_info n str s) = env_timer s"
  "param (repeat_info n str s) = param s"
  "sys_tick (repeat_info n str s) = sys_tick s"
  "events (repeat_info n str s) = events s"
  "is_pause (repeat_info n str s) = is_pause s"
  by (induction n arbitrary: s; simp)+

lemma sent_repeat_info: "sent (repeat_info n str s) = sent s"
  by (induction n arbitrary: s) (simp_all add: sent_retInfoLineFmt)

lemma length_buf_repeat_info:
  "length (buf s) \<le> RET_REPORT_BUF_SIZE \<Longrightarrow> length str \<le> RET_MAX_TAG_STRING_SIZE \<Longrightarrow>
   length (buf (repeat_info n str s))
     = min RET_REPORT_BUF_SIZE (length (buf s) + n * (20 + length str))"
proof (induction n arbitrary: s)
  case 0
  then show ?case by simp
next
  case (Suc n)
  have l: "length (buf (retInfoLineFmt str s))
        = min RET_REPORT_BUF_SIZE (length (buf s) + (20 + length str))"
    using Suc.prems by (simp add: buf_retInfoLineFmt length_line_text)
  then have "length (buf (retInfoLineFmt str s)) \<le> RET_REPORT_BUF_SIZE"
    by simp
  from Suc.IH [OF this Suc.prems(2)] l show ?case
    by (simp add: min_def)
qed

lemma run_stmts_replicate_info:
  "run_stmts (replicate n (InfoLineFmt str)) rv s = Return rv (repeat_info n str s)"
  by (induction n arbitrary: s) simp_all

lemma digit_char_no_D: "char_of (of_char (CHR ''0'') + v - v div 10 * 10 :: nat) \<noteq> CHR ''D''"
proof
  assume a: "char_of (of_char (CHR ''0'') + v - v div 10 * 10 :: nat) = CHR ''D''"
  have e: "of_char (CHR ''0'') + v - v div 10 * 10 = 48 + v mod 10"
    by (simp add: minus_mult_div_eq_mod [symmetric] mult.commute)
  have "of_char (char_of (48 + v mod 10 :: nat)) = (of_char (CHR ''D'') :: nat)"
    using a e by simp
  then have "(48 + v mod 10) mod 256 = (68 :: nat)"
    by (simp only: of_char_of) simp
  moreover have "48 + v mod 10 < (58 :: nat)"
    by simp
  ultimately show False
    by simp
qed

lemma dd_loop_no_D: "CHR ''D'' \<notin> set work \<Longrightarrow> CHR ''D'' \<notin> set (dd_loop v ch work)"
proof (induction v ch work rule: dd_loop.induct)
  case (1 v ch work)
  have "set (work[ch - 1 := char_of (of_char (CHR ''0'') + v - v div 10 * 10)])
          \<subseteq> insert (char_of (of_char (CHR ''0'') + v - v div 10 * 10)) (set work)"
    by (rule set_update_subset_insert)
  then have w: "CHR ''D'' \<notin> set (work[ch - 1 := char_of (of_char (CHR ''0'') + v - v div 10 * 10)])"
    using 1(2) digit_char_no_D [of v] by auto
  show ?case
    using 1(1) w by (subst dd_loop.simps) (simp add: Let_def)
qed

section \<open>The bytes put out\<close>

lemma report_is_pause [simp]: "report (s\<lparr>is_pause := b\<rparr>) = report s"
  by (simp add: report_def)

lemma report_next_line_number [simp]: "report (s\<lparr>next_line_number := n\<rparr>) = report s"
  by (simp add: report_def)

lemma report_events [simp]: "report (s\<lparr>events := e\<rparr>) = report s"
  by (simp add: report_def)

lemma report_retPutChar:
  "length (buf s) < RET_REPORT_BUF_SIZE \<Longrightarrow> report (retPutChar c s) = report s @ [c]"
  by (simp add: retPutChar_def retSendBuffer_def report_def Let_def)

lemma length_buf_retPutChar: "length (buf (retPutChar c s)) \<le> Suc (length (buf s))"
  by (simp add: retPutChar_def retSendBuffer_def Let_def)

lemma report_retPutString:
  "length (buf s) + length str \<le> RET_REPORT_BUF_SIZE \<Longrightarrow>
   report (retPutString str s) = report s @ str
   \<and> length (buf (retPutString str s)) \<le> length (buf s) + length str"
proof (induction str arbitrary: s)
  case Nil
  then show ?case by simp
next
  case (Cons c cs)
  have l: "length (buf (retPutChar c s)) \<le> Suc (length (buf s))"
    by (rule length_buf_retPutChar)
  with Cons.prems have "length (buf (retPutChar c s)) + length cs \<le> RET_REPORT_BUF_SIZE"
    by simp
  from Cons.IH [OF this] l Cons.prems show ?case
    by (simp add: report_retPutChar)
qed

lemma length_test_line_text:
  "length (test_line_text rv n e path) = 16 + length (RET_RETVAL_STR ! ret_val_int rv) + length path"
  by (simp add: test_line_text_def length_dd_loop)

lemma report_retFormatLine:
  "length (buf s) + length (line_text t (next_line_number s) str) \<le> RET_REPORT_BUF_SIZE \<Longrightarrow>
   report (retFormatLine t str p s) = report s @ line_text t (next_line_number s) str
   \<and> length (buf (retFormatLine t str p s))
       \<le> length (buf s) + length (line_text t (next_line_number s) str)"
  using report_retPutString
          [of "s\<lparr>is_pause := p, next_line_number := u32 (next_line_number s + 1)\<rparr>"
              "line_text t (next_line_number s) str"]
  by (simp add: retFormatLine_eq)

lemma report_retInfoLineFmt:
  "length (buf s) + length (line_text (CHR ''I'') (next_line_number s) str)
     \<le> RET_REPORT_BUF_SIZE \<Longrightarrow>
   report (retInfoLineFmt str s) = report s @ line_text (CHR ''I'') (next_line_number s) str
   \<and> length (buf (retInfoLineFmt str s))
       \<le> length (buf s) + length (line_text (CHR ''I'') (next_line_number s) str)"
  using report_retFormatLine [of s "CHR ''I''" str RET_NO_PAUSE]
  by (simp add: retInfoLineFmt_def retInfoLine_def)

lemma report_retTestLineFormat:
  "length (buf s) + length (test_line_text rv (next_line_number s) e (tag_str s))
     \<le> RET_REPORT_BUF_SIZE \<Longrightarrow>
   report (retTestLineFormat rv e s)
     = report s @ test_line_text rv (next_line_number s) e (tag_str s)
   \<and> length (buf (retTestLineFormat rv e s))
       \<le> length (buf s) + length (test_line_text rv (next_line_number s) e (tag_str s))"
  using report_retPutString
          [of "s\<lparr>next_line_number := u32 (next_line_number s + 1)\<rparr>"
              "test_line_text rv (next_line_number s) e (tag_str s)"]
  by (simp add: retTestLineFormat_eq)

lemma digits_0_4: "take 4 (dd_loop 0 4 (replicate 10 (CHR '' ''))) = ''   0''"
  by code_simp

lemma digits_1_4: "take 4 (dd_loop 1 4 (replicate 10 (CHR '' ''))) = ''   1''"
  by code_simp

lemma digits_Suc_0_4: "take 4 (dd_loop (Suc 0) 4 (replicate 10 (CHR '' ''))) = ''   1''"
  by code_simp

lemma digits_0_6: "take 6 (dd_loop 0 6 (replicate 10 (CHR '' ''))) = ''     0''"
  by code_simp

lemma events_retExit_done:
  "events (retExit_done s)
     = (if tag_found (param s) = 0 \<and> test_tag (param s) \<noteq> RET_ROOT_TAG
        then EvPathNotFound else EvDone) # events s"
  by (simp add: retExit_done_def)

lemma retExit_done_engine [simp]:
  "tag_str (retExit_done s) = tag_str s"
  "tag_ptr (retExit_done s) = tag_ptr s"
  "nest (retExit_done s) = nest s"
  "env_tag_ptr (retExit_done s) = env_tag_ptr s"
  "env_timer (retExit_done s) = env_timer s"
  "param (retExit_done s) = param s"
  "sys_tick (retExit_done s) = sys_tick s"
  "is_pause (retExit_done s) = is_pause s"
  by (simp_all add: retExit_done_def)

lemma retSendBuffer_full:
  "RET_REPORT_BUF_SIZE \<le> length (buf s) \<Longrightarrow>
   retSendBuffer s = s\<lparr>stores := length (buf s) # stores s, sent := sent s @ [buf s], buf := []\<rparr>"
  by (auto simp: retSendBuffer_def RET_REPORT_BUF_SIZE_def)

lemma retPutLineFeed_full:
  "RET_REPORT_BUF_SIZE \<le> length (buf s) \<Longrightarrow> retPutLineFeed s = s"
  by (simp add: retPutLineFeed_def retPutChar_full)

lemma length_buf_repeat_info_15:
  "buf s = [] \<Longrightarrow> length (buf (repeat_info 15 (replicate 256 c) s)) = RET_REPORT_BUF_SIZE"
  by (simp add: length_buf_repeat_info RET_MAX_TAG_STRING_SIZE_def)
     (simp add: RET_REPORT_BUF_SIZE_def)

lemma strstr_absent_char:
  "c \<in> set needle \<Longrightarrow> c \<notin> set hay \<Longrightarrow> strstr hay needle = None"
proof (induction hay)
  case Nil
  then show ?case by auto
next
  case (Cons h hay)
  have "take (length needle) (h # hay) \<noteq> needle"
  proof
    assume "take (length needle) (h # hay) = needle"
    then have "set needle \<subseteq> set (h # hay)"
      by (metis set_take_subset)
    with Cons.prems show False by auto
  qed
  with Cons show ?case by simp
qed

lemma line_text_no_D:
  "CHR ''D'' \<notin> set str \<Longrightarrow> t \<noteq> CHR ''D'' \<Longrightarrow> CHR ''D'' \<notin> set (line_text t n str)"
proof -
  have "CHR ''D'' \<notin> set (dd_loop n 4 (replicate 10 (CHR '' '')))"
    by (rule dd_loop_no_D) simp
  then have "CHR ''D'' \<notin> set (take 4 (dd_loop n 4 (replicate 10 (CHR '' ''))))"
    by (meson in_set_takeD)
  then show "CHR ''D'' \<notin> set str \<Longrightarrow> t \<noteq> CHR ''D'' \<Longrightarrow> ?thesis"
    by (simp add: line_text_def)
qed

lemma buf_repeat_info_no_D:
  "CHR ''D'' \<notin> set (buf s) \<Longrightarrow> CHR ''D'' \<notin> set str
   \<Longrightarrow> length (buf s) \<le> RET_REPORT_BUF_SIZE
   \<Longrightarrow> CHR ''D'' \<notin> set (buf (repeat_info n str s))"
proof (induction n arbitrary: s)
  case 0
  then show ?case by simp
next
  case (Suc n)
  have b: "buf (retInfoLineFmt str s)
     = take RET_REPORT_BUF_SIZE (buf s @ line_text (CHR ''I'') (next_line_number s) str)"
    using Suc.prems(3) by (rule buf_retInfoLineFmt)
  have "CHR ''D'' \<notin> set (buf s @ line_text (CHR ''I'') (next_line_number s) str)"
    using Suc.prems(1,2) line_text_no_D [of str "CHR ''I''"] by simp
  then have d: "CHR ''D'' \<notin> set (buf (retInfoLineFmt str s))"
    unfolding b by (meson in_set_takeD)
  have l: "length (buf (retInfoLineFmt str s)) \<le> RET_REPORT_BUF_SIZE"
    unfolding b by simp
  from Suc.IH [OF d Suc.prems(2) l] show ?case
    by simp
qed

lemma report_repeat_info_15_no_DONE:
  "buf s = [] \<Longrightarrow>
   strstr (buf (repeat_info 15 (replicate 256 (CHR ''x'')) s)) ''DONE'' = None"
  by (rule strstr_absent_char [of "CHR ''D''"])
     (simp_all add: buf_repeat_info_no_D)

section \<open>Every frame of a well-formed tree returns or jumps to the root\<close>

subsection \<open>Stretches of events\<close>

lemma new_events_eq: "events s' = new @ events s \<Longrightarrow> new_events s s' = new"
  by (simp add: new_events_def)

lemma new_events_refl [simp]: "new_events s s = []"
  by (simp add: new_events_def)

lemma quiet_fromI:
  "events s' = new @ events s \<Longrightarrow> list_all (inner_event lvl) new \<Longrightarrow> quiet_from lvl s s'"
  by (simp add: quiet_from_def new_events_eq)

lemma quiet_fromD:
  assumes "quiet_from lvl s s'"
  shows "events s' = new_events s s' @ events s" "list_all (inner_event lvl) (new_events s s')"
  using assms by (simp_all add: quiet_from_def)

lemma quiet_from_refl [simp]: "quiet_from lvl s s"
  by (simp add: quiet_from_def)

lemma new_events_trans:
  assumes "events s1 = new_events s s1 @ events s" "events s2 = new_events s1 s2 @ events s1"
  shows "new_events s s2 = new_events s1 s2 @ new_events s s1"
  using assms by (intro new_events_eq) simp

lemma inner_event_mono: "inner_event l e \<Longrightarrow> k \<le> l \<Longrightarrow> inner_event k e"
  by (cases e) simp_all

lemma quiet_from_mono: "quiet_from l s s' \<Longrightarrow> k \<le> l \<Longrightarrow> quiet_from k s s'"
  by (auto simp: quiet_from_def list_all_iff intro: inner_event_mono)

lemma quiet_from_trans:
  assumes "quiet_from l s s1" "quiet_from l s1 s2"
  shows "quiet_from l s s2"
proof -
  have n: "new_events s s2 = new_events s1 s2 @ new_events s s1"
    using assms by (intro new_events_trans) (simp_all add: quiet_from_def)
  show ?thesis
    using assms by (simp add: quiet_from_def n)
qed

lemma fails_at_trans:
  assumes "quiet_from l s s1" "quiet_from l s1 s2"
  shows "fails_at k s s2 \<longleftrightarrow> fails_at k s s1 \<or> fails_at k s1 s2"
proof -
  have n: "new_events s s2 = new_events s1 s2 @ new_events s s1"
    using assms by (intro new_events_trans) (simp_all add: quiet_from_def)
  show ?thesis
    by (auto simp: fails_at_def n)
qed

lemma fails_at_refl [simp]: "\<not> fails_at k s s"
  by (simp add: fails_at_def)

lemma fails_at_inner:
  assumes "quiet_from (Suc k) s s'"
  shows "\<not> fails_at k s s'"
proof -
  have "list_all (inner_event (Suc k)) (new_events s s')"
    using assms by (simp add: quiet_from_def)
  then show ?thesis
    by (auto simp: fails_at_def list_all_iff list_ex_iff split: event.splits)
qed

lemma same_frame_refl: "engine_inv s \<Longrightarrow> same_frame k s s"
  by (simp add: same_frame_def)

lemma same_frame_trans:
  "same_frame k s s1 \<Longrightarrow> same_frame k s1 s2 \<Longrightarrow> same_frame k s s2"
  by (simp add: same_frame_def)

lemma same_frame_mono: "same_frame k s s' \<Longrightarrow> j \<le> k \<Longrightarrow> same_frame j s s'"
  by (simp add: same_frame_def)

subsection \<open>The length of a number's text\<close>

lemma length_conv_loop: "0 < k \<Longrightarrow> v < 10 ^ k \<Longrightarrow> length (conv_loop v) \<le> k"
proof (induction k arbitrary: v)
  case 0
  then show ?case by simp
next
  case (Suc k)
  show ?case
  proof (cases "v div 10 = 0")
    case True
    then show ?thesis
      by (subst conv_loop.simps) simp
  next
    case False
    then have k: "0 < k"
      using Suc.prems by (cases k) auto
    have "v div 10 < 10 ^ k"
      using Suc.prems(2) by (simp add: less_mult_imp_div_less mult.commute)
    from Suc.IH [OF k this] False show ?thesis
      by (subst conv_loop.simps) simp
  qed
qed

lemma retConvIntToDecAscii_len:
  assumes "- 2147483647 \<le> v" "v \<le> 2147483647"
  shows "\<exists>str. retConvIntToDecAscii v = Some str \<and> length str \<le> 11"
proof -
  have "nat (if v < 0 then - v else v) < 10 ^ 10"
    using assms by auto
  then have "length (conv_loop (nat (if v < 0 then - v else v))) \<le> 10"
    by (intro length_conv_loop) simp_all
  then show ?thesis
    using assms by (auto simp: retConvIntToDecAscii_def Let_def)
qed

lemma assert_buf_fits:
  assumes "retConvIntToDecAscii l = Some line_str" "length line_str + length f < 94"
    and "- 2147483647 \<le> rv" "rv \<le> 2147483647"
  shows "\<exists>msg. assert_buf l f rv = Some msg \<and> length msg < 128"
proof -
  obtain rs where "retConvIntToDecAscii rv = Some rs" "length rs \<le> 11"
    using retConvIntToDecAscii_len [OF assms(3,4)] by blast
  with assms(1,2) show ?thesis
    by (simp add: assert_buf_def)
qed

subsection \<open>Leaves\<close>

lemma engine_inv_report [simp]:
  "engine_inv (retInfoLineFmt str s) = engine_inv s"
  "engine_inv (retInfoLine str p s) = engine_inv s"
  "engine_inv (retTestLineFormat rv e s) = engine_inv s"
  "engine_inv (retSearchLine str s) = engine_inv s"
  "engine_inv (s\<lparr>events := ev\<rparr>) = engine_inv s"
  "engine_inv (s\<lparr>is_pause := b\<rparr>) = engine_inv s"
  by (simp_all add: engine_inv_def)

lemma run_stmts_post:
  assumes "list_all wf_stmt body" "engine_inv s" "0 < nest s" "nest s \<le> RET_MAX_NEST_SIZE"
  shows "\<exists>s'. (run_stmts body rv s = Return rv s'
               \<or> run_stmts body rv s = Longjmp (nest s - 1) (- 1) s')
              \<and> same_frame k s s' \<and> events s' = events s"
  using assms
proof (induction body arbitrary: s)
  case Nil
  then show ?case by (auto simp: same_frame_def)
next
  case (Cons st body)
  show ?case
  proof (cases st)
    case (RET_ASSERT c l f)
    show ?thesis
    proof (cases c)
      case True
      then show ?thesis
        using Cons RET_ASSERT by (simp add: retAssert_def)
    next
      case False
      then obtain ls where ls: "retConvIntToDecAscii l = Some ls" "length ls + length f < 94"
        using Cons.prems(1) RET_ASSERT by (auto split: option.splits)
      obtain msg where m: "assert_buf l f (retval (param s)) = Some msg" "length msg < 128"
        using assert_buf_fits [OF ls] Cons.prems(2) by (auto simp: engine_inv_def)
      have "run_stmts (st # body) rv s = Longjmp (nest s - 1) (- 1) (retInfoLineFmt msg s)"
        using False RET_ASSERT m Cons.prems(3,4)
        by (auto simp: retAssert_def Let_def)
      moreover have "same_frame k s (retInfoLineFmt msg s)"
        using Cons.prems(2) by (simp add: same_frame_def)
      ultimately show ?thesis
        by auto
    qed
  next
    case (InfoLineFmt str)
    have "\<exists>s'. (run_stmts body rv (retInfoLineFmt str s) = Return rv s'
               \<or> run_stmts body rv (retInfoLineFmt str s)
                   = Longjmp (nest (retInfoLineFmt str s) - 1) (- 1) s')
              \<and> same_frame k (retInfoLineFmt str s) s'
              \<and> events s' = events (retInfoLineFmt str s)"
      using Cons.prems by (intro Cons.IH) simp_all
    then show ?thesis
      using InfoLineFmt by (auto simp: same_frame_def)
  next
    case (InfoLine str p)
    have "\<exists>s'. (run_stmts body rv (retInfoLine str p s) = Return rv s'
               \<or> run_stmts body rv (retInfoLine str p s)
                   = Longjmp (nest (retInfoLine str p s) - 1) (- 1) s')
              \<and> same_frame k (retInfoLine str p s) s'
              \<and> events s' = events (retInfoLine str p s)"
      using Cons.prems by (intro Cons.IH) simp_all
    then show ?thesis
      using InfoLine by (auto simp: same_frame_def)
  next
    case (SetRetval v)
    define s1 where "s1 = s\<lparr>param := (param s)\<lparr>retval := v\<rparr>\<rparr>"
    have "\<exists>s'. (run_stmts body rv s1 = Return rv s'
               \<or> run_stmts body rv s1 = Longjmp (nest s1 - 1) (- 1) s')
              \<and> same_frame k s1 s' \<and> events s' = events s1"
      using Cons.prems SetRetval by (intro Cons.IH) (simp_all add: s1_def engine_inv_def)
    then show ?thesis
      using SetRetval by (auto simp: same_frame_def s1_def)
  qed
qed

lemma call_leaf:
  assumes "wf_func (Leaf body rv)" "call_pre s"
  shows "\<exists>r. call_func (Leaf body rv) s = Some r \<and> call_post s r"
proof (cases "mode (param s) = RET_MODE_SEARCH \<or> mode (param s) = RET_MODE_SKIP")
  case True
  then show ?thesis
    using assms by (auto simp: leaf_func_def call_post_def call_pre_def same_frame_def)
next
  case False
  define sb where "sb = s\<lparr>events := EvBody (tag_str s) # events s\<rparr>"
  have q: "quiet_from (nest s) s sb"
    by (rule quiet_fromI [where new = "[EvBody (tag_str s)]"]) (simp_all add: sb_def)
  obtain s' where r: "run_stmts body rv sb = Return rv s'
               \<or> run_stmts body rv sb = Longjmp (nest sb - 1) (- 1) s'"
    and f: "same_frame (nest s) sb s'" and e: "events s' = events sb"
    using run_stmts_post [of body sb rv "nest s"] assms
    by (auto simp: sb_def call_pre_def)
  have q': "quiet_from (nest s) s s'"
    using q e by (simp add: quiet_from_def new_events_def)
  have f': "same_frame (nest s) s s'"
    using f by (simp add: same_frame_def sb_def)
  from r show ?thesis
  proof
    assume "run_stmts body rv sb = Return rv s'"
    then show ?thesis
      using False assms(1) f' q' by (simp add: leaf_func_def call_post_def sb_def)
  next
    assume "run_stmts body rv sb = Longjmp (nest sb - 1) (- 1) s'"
    then show ?thesis
      using False f' q' by (simp add: leaf_func_def call_post_def sb_def)
  qed
qed

subsection \<open>Leaving a node\<close>

lemma retEnter_mode_ok:
  assumes "0 < nest s" "nest s \<le> RET_MAX_NEST_SIZE"
  shows "\<exists>s'. retEnter_mode s = Return () s'"
  using assms
  by (auto simp: retEnter_mode_def retFindTagToken_def RET_SYS_TICK_FUNC_def Let_def
           split: option.splits if_splits list.splits prod.splits)

lemma exit_step:
  assumes pre: "frame_pre s" and ent: "entered tag s s3" and rv: "rv \<noteq> RET_ERR_TAG"
  shows "\<exists>r. retExecuteList_exit (nest s) rv err s3 = Some r \<and> turn_post err s r"
proof -
  define sR where "sR = s3\<lparr>events := EvResult (nest s) rv # events s3\<rparr>"
  have n3: "nest s3 = Suc (nest s)" and t3: "tag_str s3 = tag_str s @ RET_TOKEN_DELIMITER # tag"
    and e3: "\<And>i. i \<le> nest s \<Longrightarrow> env_tag_ptr s3 i = env_tag_ptr s i"
    and g3: "test_tag (param s3) = test_tag (param s)" and i3: "engine_inv s3"
    and q3: "quiet_from (Suc (nest s)) s s3"
    using ent by (simp_all add: entered_def)
  have p: "engine_inv s" "0 < nest s" "nest s < RET_MAX_NEST_SIZE"
      "env_tag_ptr s (nest s) = tag_ptr s" "env_tag_ptr s 0 \<le> length (tag_str s)"
      "tag_ptr s = length (tag_str s)"
    using pre by (simp_all add: frame_pre_def engine_inv_def)
  obtain s4 where s4: "retExit_report rv sR = Return () s4"
    using retExit_report_ok [of sR rv] n3 p(3) by (auto simp: sR_def)
  note f4 = retExit_report_Return [OF s4]
  have ev4: "events s4 = EvResult (nest s) rv # events s3"
    using f4 by (simp add: sR_def)
  have i4: "engine_inv s4"
    using f4 i3 by (simp add: engine_inv_def sR_def)
  have qR: "quiet_from (nest s) s3 s4"
    by (rule quiet_fromI [where new = "[EvResult (nest s) rv]"]) (simp_all add: ev4)
  have q4: "quiet_from (nest s) s s4"
    using quiet_from_mono [OF q3, of "nest s"] qR by (auto intro: quiet_from_trans)
  have fl: "fails_at (nest s) s s4 \<longleftrightarrow> rv \<noteq> RET_PASS"
  proof -
    have "fails_at (nest s) s s4 \<longleftrightarrow> fails_at (nest s) s s3 \<or> fails_at (nest s) s3 s4"
      using quiet_from_mono [OF q3, of "nest s"] qR by (intro fails_at_trans) simp_all
    moreover have "\<not> fails_at (nest s) s s3"
      using q3 by (rule fails_at_inner)
    moreover have "fails_at (nest s) s3 s4 \<longleftrightarrow> rv \<noteq> RET_PASS"
      using new_events_eq [of s4 "[EvResult (nest s) rv]" s3] ev4
      by (simp add: fails_at_def)
    ultimately show ?thesis by simp
  qed
  show ?thesis
  proof (cases "tag_str s4 = test_tag (param s4)")
    case True
    define s5 where "s5 = s4\<lparr>tag_ptr := env_tag_ptr s4 0,
        tag_str := take (env_tag_ptr s4 0) (tag_str s4), nest := 0\<rparr>"
    have e0: "env_tag_ptr s4 0 = env_tag_ptr s 0"
      using f4 e3 [of 0] by (simp add: sR_def)
    have len: "env_tag_ptr s 0 \<le> length (tag_str s4)"
      using f4 t3 p(5) by (simp add: sR_def)
    have rm: "retRemoveTag 0 s4 = Return () s5"
      using e0 len by (simp add: retRemoveTag_def s5_def RET_MAX_NEST_SIZE_def)
    define w where "w = (if ret_val_int rv = 0 then 1 else int (ret_val_int rv))"
    have w: "w \<noteq> - 1"
      by (simp add: w_def)
    have x: "retExit rv sR = Longjmp 0 w s5"
      using rv s4 True rm by (simp add: retExit_def w_def)
    have tk: "take (env_tag_ptr s 0) (tag_str s4) = take (env_tag_ptr s 0) (tag_str s)"
      using f4 t3 p(5) by (simp add: sR_def)
    have u: "unwound s s5"
      using f4 e0 tk g3 True i4 p(5) t3
      by (simp add: unwound_def s5_def engine_inv_def sR_def)
    have q5: "quiet_from (nest s) s s5"
      using q4 by (simp add: quiet_from_def new_events_def s5_def)
    have "retExecuteList_exit (nest s) rv err s3 = Some (Longjmp 0 w s5)"
      using x p(2) by (subst retExecuteList_exit.simps) (simp add: sR_def)
    then show ?thesis
      using w u q5 by (simp add: turn_post_def)
  next
    case False
    define s5 where "s5 = s4\<lparr>tag_ptr := tag_ptr s, tag_str := tag_str s, nest := nest s\<rparr>"
    have en: "env_tag_ptr s4 (nest s) = length (tag_str s)"
      using f4 e3 [of "nest s"] p(4,6) by (simp add: sR_def)
    have rm: "retRemoveTag (nest s4 - 1) s4 = Return () s5"
      using f4 n3 p(3,6) en t3 by (simp add: retRemoveTag_def s5_def sR_def)
    have x: "retExit rv sR = Return () s5"
      using rv s4 False rm f4 n3 p(2) by (simp add: retExit_def s5_def sR_def)
    have sf: "same_frame (Suc (nest s)) s s5"
      using f4 e3 g3 i4 p(6)
      by (auto simp: same_frame_def s5_def engine_inv_def sR_def)
    have q5: "quiet_from (nest s) s s5"
      using q4 by (simp add: quiet_from_def new_events_def s5_def)
    have fl5: "fails_at (nest s) s s5 \<longleftrightarrow> rv \<noteq> RET_PASS"
      using fl by (simp add: fails_at_def new_events_def s5_def)
    have "retExecuteList_exit (nest s) rv err s3
            = Some (Return (if rv \<noteq> RET_PASS then RET_FAIL else err) s5)"
      using x by (subst retExecuteList_exit.simps) (simp add: sR_def)
    then show ?thesis
      using sf q5 fl5 by (auto simp: turn_post_def)
  qed
qed

lemma exit_step_tag_error:
  assumes pre: "frame_pre s" and sf: "same_frame (Suc (nest s)) s s1"
    and ev: "events s1 = events s"
  shows "\<exists>r. retExecuteList_exit (nest s) RET_ERR_TAG err s1 = Some r \<and> turn_post err s r"
proof -
  define s' where "s' = retTestLineFormat RET_ERR_TAG 0
                          (s1\<lparr>events := EvResult (nest s) RET_ERR_TAG # events s1\<rparr>)"
  have e: "events s' = [EvResult (nest s) RET_ERR_TAG] @ events s"
    using ev by (simp add: s'_def)
  have q: "quiet_from (nest s) s s'"
    using e by (rule quiet_fromI) simp
  have f: "fails_at (nest s) s s'"
    using new_events_eq [OF e] by (simp add: fails_at_def)
  have "same_frame (Suc (nest s)) s s'"
    using sf by (simp add: same_frame_def s'_def)
  then show ?thesis
    using q f by (simp add: retExecuteList_exit_tag_error turn_post_def s'_def)
qed

lemma catch_step:
  assumes pre: "frame_pre s" and ep: "enter_post tag s r1"
  shows "\<exists>r. retExecuteList_catch (nest s) err (Some r1) = Some r \<and> turn_post err s r"
proof (cases r1)
  case (Return rv s1)
  show ?thesis
  proof (cases "rv = RET_ERR_TAG")
    case True
    then show ?thesis
      using ep Return exit_step_tag_error [OF pre, of s1 err]
      by (auto simp: enter_post_def retExecuteList_catch_def)
  next
    case False
    then show ?thesis
      using ep Return exit_step [OF pre, of tag s1 rv err]
      by (auto simp: enter_post_def retExecuteList_catch_def)
  qed
next
  case (Longjmp k v s1)
  show ?thesis
  proof (cases "v = - 1")
    case True
    then have "k = nest s" "entered tag s s1"
      using ep Longjmp by (auto simp: enter_post_def)
    then show ?thesis
      using Longjmp True exit_step [OF pre, of tag s1 RET_FAIL err]
      by (auto simp: retExecuteList_catch_def longjmp_retval_def)
  next
    case False
    then have k: "k = 0" and u: "unwound s s1" and q: "quiet_from (Suc (nest s)) s s1"
      using ep Longjmp by (auto simp: enter_post_def)
    have "0 < nest s"
      using pre by (simp add: frame_pre_def)
    then show ?thesis
      using Longjmp False k u quiet_from_mono [OF q, of "nest s"]
      by (simp add: retExecuteList_catch_def turn_post_def)
  qed
next
  case Fault
  then show ?thesis
    using ep by (simp add: enter_post_def)
qed

subsection \<open>Entering a node, the loop and the list\<close>

lemma enter_step:
  assumes pre: "frame_pre s"
    and ih: "\<And>s1 s2. retAddTag tag s = Return RET_PASS s1 \<Longrightarrow> retEnter_mode s1 = Return () s2
               \<Longrightarrow> call_pre (s2\<lparr>events := EvCall (tag_str s2) # events s2\<rparr>)
               \<Longrightarrow> \<exists>r. call_func func (s2\<lparr>events := EvCall (tag_str s2) # events s2\<rparr>) = Some r
                      \<and> call_post (s2\<lparr>events := EvCall (tag_str s2) # events s2\<rparr>) r"
  shows "\<exists>r. retEnter (Test func tag) s = Some r \<and> enter_post tag s r"
proof -
  have p: "engine_inv s" "0 < nest s" "nest s < RET_MAX_NEST_SIZE"
      "env_tag_ptr s (nest s) = tag_ptr s" "env_tag_ptr s 0 \<le> length (tag_str s)"
      "tag_ptr s = length (tag_str s)"
    using pre by (simp_all add: frame_pre_def engine_inv_def)
  show ?thesis
  proof (cases "tag_ptr s + length tag + 1 < RET_MAX_TAG_STRING_SIZE")
    case False
    then have a: "retAddTag tag s = Return RET_ERR_TAG s"
      by (simp add: retAddTag_def Let_def)
    have "same_frame (Suc (nest s)) s (retInfoLineFmt RET_TAG_ERR_MSG s)"
      using p(1) by (simp add: same_frame_def engine_inv_def)
    then show ?thesis
      using a by (simp add: enter_post_def)
  next
    case True
    define s1 where "s1 = s\<lparr>tag_ptr := tag_ptr s + length tag + 1,
        tag_str := tag_str s @ RET_TOKEN_DELIMITER # tag, nest := nest s + 1\<rparr>"
    have u: "u32 (nest s + 1) = nest s + 1"
      using p(3) by (simp add: u32_def RET_MAX_NEST_SIZE_def)
    have a: "retAddTag tag s = Return RET_PASS s1"
      using True p(6) u by (simp add: retAddTag_def Let_def s1_def)
    obtain s2 where m: "retEnter_mode s1 = Return () s2"
      using retEnter_mode_ok [of s1] p(3) by (auto simp: s1_def)
    note f2 = retEnter_mode_Return [OF m]
    define sc where "sc = s2\<lparr>events := EvCall (tag_str s2) # events s2\<rparr>"
    have i2: "engine_inv sc"
      using f2 p(1,6) by (simp add: engine_inv_def sc_def s1_def)
    have cp: "call_pre sc"
      using i2 f2 p(3,5) by (simp add: call_pre_def sc_def s1_def)
    obtain r where r: "call_func func sc = Some r" "call_post sc r"
      using ih [OF a m] cp by (auto simp: sc_def)
    have nc: "nest sc = Suc (nest s)" and tc: "tag_str sc = tag_str s @ RET_TOKEN_DELIMITER # tag"
      and ec: "env_tag_ptr sc = env_tag_ptr s" and gc: "test_tag (param sc) = test_tag (param s)"
      and vc: "events sc = [EvCall (tag_str sc)] @ events s"
      using f2 by (simp_all add: sc_def s1_def)
    have qc: "quiet_from (Suc (nest s)) s sc"
      using vc by (rule quiet_fromI) simp
    have e: "retEnter (Test func tag) s = Some r"
      using a m r(1) by (simp add: sc_def)
    have "enter_post tag s r"
    proof (cases r)
      case (Return rv s')
      then have "rv \<noteq> RET_ERR_TAG" "same_frame (Suc (nest s)) sc s'"
          "quiet_from (Suc (nest s)) sc s'"
        using r(2) nc by (simp_all add: call_post_def)
      then have "entered tag s s'" "rv \<noteq> RET_ERR_TAG"
        using nc tc ec gc quiet_from_trans [OF qc]
        by (auto simp: entered_def same_frame_def)
      then show ?thesis
        using Return by (simp add: enter_post_def)
    next
      case (Longjmp k v s')
      show ?thesis
      proof (cases "v = - 1")
        case True
        then have "k = nest s" "same_frame (Suc (nest s)) sc s'"
            "quiet_from (Suc (nest s)) sc s'"
          using r(2) Longjmp nc by (auto simp: call_post_def)
        then have "entered tag s s'" "k = nest s"
          using nc tc ec gc quiet_from_trans [OF qc]
          by (auto simp: entered_def same_frame_def)
        then show ?thesis
          using Longjmp True by (simp add: enter_post_def)
      next
        case False
        then have "k = 0" "unwound sc s'" "quiet_from (Suc (nest s)) sc s'"
          using r(2) Longjmp nc by (auto simp: call_post_def)
        then have "k = 0" "unwound s s'" "quiet_from (Suc (nest s)) s s'"
          using tc ec gc p(5) quiet_from_trans [OF qc]
          by (auto simp: unwound_def)
        then show ?thesis
          using Longjmp False by (simp add: enter_post_def)
      qed
    next
      case Fault
      then show ?thesis
        using r(2) by (simp add: call_post_def)
    qed
    with e show ?thesis by blast
  qed
qed

lemma turn_step:
  assumes pre: "frame_pre s"
    and ih: "\<exists>r. retEnter test s = Some r \<and> enter_post (tag_of test) s r"
  shows "\<exists>r. retExecuteList_turn test err s = Some r \<and> turn_post err s r"
proof -
  obtain r1 where r1: "retEnter test s = Some r1" "enter_post (tag_of test) s r1"
    using ih by blast
  have "nest s < RET_MAX_NEST_SIZE"
    using pre by (simp add: frame_pre_def)
  then show ?thesis
    using catch_step [OF pre r1(2), of err] r1(1) by simp
qed

lemma frame_pre_same_frame:
  assumes "frame_pre s" "same_frame (Suc (nest s)) s s'"
  shows "frame_pre s'"
  using assms by (auto simp: frame_pre_def same_frame_def)

lemma unwound_same_frame:
  assumes "same_frame (Suc k) s s1" "unwound s1 s'"
  shows "unwound s s'"
  using assms by (auto simp: unwound_def same_frame_def)

lemma loop_step:
  assumes pre: "frame_pre s"
    and t: "\<exists>r. retExecuteList_turn test err s = Some r \<and> turn_post err s r"
    and ih: "\<And>e1 s1. retExecuteList_turn test err s = Some (Return e1 s1) \<Longrightarrow> frame_pre s1
               \<Longrightarrow> \<exists>r. retExecuteList_loop rest e1 s1 = Some r \<and> turn_post e1 s1 r"
  shows "\<exists>r. retExecuteList_loop (test # rest) err s = Some r \<and> turn_post err s r"
proof -
  obtain r1 where r1: "retExecuteList_turn test err s = Some r1" "turn_post err s r1"
    using t by blast
  show ?thesis
  proof (cases r1)
    case (Return e1 s1)
    then have sf: "same_frame (Suc (nest s)) s s1" and q: "quiet_from (nest s) s s1"
      and e1: "e1 = (if err = RET_FAIL \<or> fails_at (nest s) s s1 then RET_FAIL else err)"
      using r1(2) by (simp_all add: turn_post_def)
    have n1: "nest s1 = nest s"
      using sf by (simp add: same_frame_def)
    obtain r where r: "retExecuteList_loop rest e1 s1 = Some r" "turn_post e1 s1 r"
      using ih [of e1 s1] r1(1) Return frame_pre_same_frame [OF pre sf] by auto
    have l: "retExecuteList_loop (test # rest) err s = Some r"
      using r1(1) Return r(1) by (simp del: retExecuteList_turn.simps)
    have "turn_post err s r"
    proof (cases r)
      case (Return e2 s2)
      then have sf2: "same_frame (Suc (nest s)) s1 s2" and q2: "quiet_from (nest s) s1 s2"
        and e2: "e2 = (if e1 = RET_FAIL \<or> fails_at (nest s) s1 s2 then RET_FAIL else e1)"
        using r(2) n1 by (simp_all add: turn_post_def)
      have "fails_at (nest s) s s2 \<longleftrightarrow> fails_at (nest s) s s1 \<or> fails_at (nest s) s1 s2"
        using q q2 by (rule fails_at_trans)
      then show ?thesis
        using Return same_frame_trans [OF sf sf2] quiet_from_trans [OF q q2] e1 e2
        by (auto simp: turn_post_def)
    next
      case (Longjmp k v s2)
      then have "k = 0" "v \<noteq> - 1" "unwound s1 s2" "quiet_from (nest s) s1 s2"
        using r(2) n1 by (simp_all add: turn_post_def)
      then show ?thesis
        using Longjmp unwound_same_frame [OF sf] quiet_from_trans [OF q]
        by (simp add: turn_post_def)
    next
      case Fault
      then show ?thesis
        using r(2) by (simp add: turn_post_def)
    qed
    with l show ?thesis by blast
  next
    case (Longjmp k v s1)
    then show ?thesis
      using r1 by (simp del: retExecuteList_turn.simps)
  next
    case Fault
    then show ?thesis
      using r1 by (simp add: turn_post_def)
  qed
qed

lemma list_step:
  assumes pre: "call_pre s"
    and ih: "nest s < RET_MAX_NEST_SIZE
      \<Longrightarrow> frame_pre (s\<lparr>env_tag_ptr := (env_tag_ptr s)(nest s := tag_ptr s)\<rparr>)
      \<Longrightarrow> \<exists>r. retExecuteList_loop list RET_PASS
                 (s\<lparr>env_tag_ptr := (env_tag_ptr s)(nest s := tag_ptr s)\<rparr>) = Some r
             \<and> turn_post RET_PASS (s\<lparr>env_tag_ptr := (env_tag_ptr s)(nest s := tag_ptr s)\<rparr>) r"
  shows "\<exists>r. retExecuteList list s = Some r \<and> list_post s r"
proof (cases "nest s < RET_MAX_NEST_SIZE")
  case False
  have "engine_inv s"
    using pre by (simp add: call_pre_def)
  then have "same_frame (nest s) s (retInfoLineFmt RET_LAYER_ERR_MSG s)"
    by (simp add: same_frame_def engine_inv_def)
  moreover have "quiet_from (nest s) s (retInfoLineFmt RET_LAYER_ERR_MSG s)"
    by (rule quiet_fromI [where new = "[]"]) simp_all
  ultimately show ?thesis
    using False by (simp add: list_post_def)
next
  case True
  define s0 where "s0 = s\<lparr>env_tag_ptr := (env_tag_ptr s)(nest s := tag_ptr s)\<rparr>"
  have p: "engine_inv s" "0 < nest s" "env_tag_ptr s 0 \<le> length (tag_str s)"
    using pre by (simp_all add: call_pre_def)
  have fp: "frame_pre s0"
    using p True by (simp add: frame_pre_def s0_def engine_inv_def)
  obtain r where r: "retExecuteList_loop list RET_PASS s0 = Some r" "turn_post RET_PASS s0 r"
    using ih [OF True] fp by (auto simp: s0_def)
  have sf0: "same_frame (nest s) s s0"
    using p(1) by (simp add: same_frame_def s0_def engine_inv_def)
  have q0: "quiet_from (nest s) s s0"
    by (rule quiet_fromI [where new = "[]"]) (simp_all add: s0_def)
  show ?thesis
  proof (cases r)
    case (Return e s1)
    then have sf: "same_frame (Suc (nest s)) s0 s1" and q: "quiet_from (nest s) s0 s1"
      and e: "e = (if fails_at (nest s) s0 s1 then RET_FAIL else RET_PASS)"
      using r(2) by (simp_all add: turn_post_def s0_def)
    define s' where "s' = s1\<lparr>is_pause := is_pause s\<rparr>"
    have x: "retExecuteList list s = Some (Return e s')"
      using True r(1) Return by (simp add: s0_def s'_def)
    have "same_frame (nest s) s s'"
      using sf p(2) by (auto simp: same_frame_def s0_def s'_def engine_inv_def)
    moreover have "quiet_from (nest s) s s'"
      using q by (simp add: quiet_from_def new_events_def s0_def s'_def)
    moreover have "fails_at (nest s) s s' = fails_at (nest s) s0 s1"
      by (simp add: fails_at_def new_events_def s0_def s'_def)
    ultimately show ?thesis
      using x e by (auto simp: list_post_def)
  next
    case (Longjmp k v s1)
    then have "k = 0" "v \<noteq> - 1" "unwound s0 s1" "quiet_from (nest s) s0 s1"
      using r(2) by (simp_all add: turn_post_def s0_def)
    moreover have "retExecuteList list s = Some (Longjmp k v s1)"
      using True r(1) Longjmp by (simp add: s0_def)
    ultimately show ?thesis
      using p(2) by (auto simp: list_post_def unwound_def quiet_from_def new_events_def s0_def)
  next
    case Fault
    then show ?thesis
      using r(2) by (simp add: turn_post_def)
  qed
qed

lemma call_branch:
  assumes "\<exists>r. retExecuteList list s = Some r \<and> list_post s r"
  shows "\<exists>r. call_func (Branch list) s = Some r \<and> call_post s r"
proof -
  obtain r where r: "retExecuteList list s = Some r" "list_post s r"
    using assms by blast
  have "call_post s r"
    using r(2) by (cases r) (auto simp: list_post_def call_post_def)
  then show ?thesis
    using r(1) by (simp del: retExecuteList.simps)
qed

lemma master:
  "(list_all wf_test list \<longrightarrow> call_pre s
      \<longrightarrow> (\<exists>r. retExecuteList list s = Some r \<and> list_post s r))"
  "(list_all wf_test list2 \<longrightarrow> frame_pre s2
      \<longrightarrow> (\<exists>r. retExecuteList_loop list2 err2 s2 = Some r \<and> turn_post err2 s2 r))"
  "(wf_test test3 \<longrightarrow> frame_pre s3
      \<longrightarrow> (\<exists>r. retExecuteList_turn test3 err3 s3 = Some r \<and> turn_post err3 s3 r))"
  "(wf_test test4 \<longrightarrow> frame_pre s4
      \<longrightarrow> (\<exists>r. retEnter test4 s4 = Some r \<and> enter_post (tag_of test4) s4 r))"
  "(wf_func func \<longrightarrow> call_pre s5
      \<longrightarrow> (\<exists>r. call_func func s5 = Some r \<and> call_post s5 r))"
proof (induction list s and list2 err2 s2 and test3 err3 s3 and test4 s4 and func s5
       rule: retExecuteList_retExecuteList_loop_retExecuteList_turn_retEnter_call_func.induct)
  case (1 list s)
  show ?case
  proof (intro impI)
    assume w: "list_all wf_test list" and c: "call_pre s"
    show "\<exists>r. retExecuteList list s = Some r \<and> list_post s r"
      using c
    proof (rule list_step)
      assume "nest s < RET_MAX_NEST_SIZE"
        and "frame_pre (s\<lparr>env_tag_ptr := (env_tag_ptr s)(nest s := tag_ptr s)\<rparr>)"
      then show "\<exists>r. retExecuteList_loop list RET_PASS
                 (s\<lparr>env_tag_ptr := (env_tag_ptr s)(nest s := tag_ptr s)\<rparr>) = Some r
             \<and> turn_post RET_PASS (s\<lparr>env_tag_ptr := (env_tag_ptr s)(nest s := tag_ptr s)\<rparr>) r"
        using 1 w by simp
    qed
  qed
next
  case (2 err_flag s)
  have "frame_pre s \<Longrightarrow> turn_post err_flag s (Return err_flag s)"
    by (simp add: turn_post_def frame_pre_def same_frame_refl quiet_from_refl fails_at_refl)
  then show ?case by simp
next
  case (3 test rest err_flag s)
  show ?case
  proof (intro impI)
    assume w: "list_all wf_test (test # rest)" and c: "frame_pre s"
    show "\<exists>r. retExecuteList_loop (test # rest) err_flag s = Some r \<and> turn_post err_flag s r"
      using c
    proof (rule loop_step)
      show "\<exists>r. retExecuteList_turn test err_flag s = Some r \<and> turn_post err_flag s r"
        using 3(1) w c by simp
    next
      fix e1 s1
      assume "retExecuteList_turn test err_flag s = Some (Return e1 s1)" "frame_pre s1"
      then show "\<exists>r. retExecuteList_loop rest e1 s1 = Some r \<and> turn_post e1 s1 r"
        using 3(2) w by simp
    qed
  qed
next
  case (4 test err_flag s)
  show ?case
  proof (intro impI)
    assume w: "wf_test test" and c: "frame_pre s"
    have "nest s < RET_MAX_NEST_SIZE"
      using c by (simp add: frame_pre_def)
    then have "\<exists>r. retEnter test s = Some r \<and> enter_post (tag_of test) s r"
      using 4 w c by simp
    with c show "\<exists>r. retExecuteList_turn test err_flag s = Some r \<and> turn_post err_flag s r"
      by (rule turn_step)
  qed
next
  case (5 func tag s)
  show ?case
  proof (intro impI)
    assume w: "wf_test (Test func tag)" and c: "frame_pre s"
    have "\<exists>r. retEnter (Test func tag) s = Some r \<and> enter_post tag s r"
      using c
    proof (rule enter_step)
      fix s1 s2
      assume "retAddTag tag s = Return RET_PASS s1" "retEnter_mode s1 = Return () s2"
        "call_pre (s2\<lparr>events := EvCall (tag_str s2) # events s2\<rparr>)"
      then show "\<exists>r. call_func func (s2\<lparr>events := EvCall (tag_str s2) # events s2\<rparr>) = Some r
                      \<and> call_post (s2\<lparr>events := EvCall (tag_str s2) # events s2\<rparr>) r"
        using 5 [of RET_PASS s1 "()" s2] w by simp
    qed
    then show "\<exists>r. retEnter (Test func tag) s = Some r \<and> enter_post (tag_of (Test func tag)) s r"
      by simp
  qed
next
  case (6 body rv s)
  show ?case
    using call_leaf [of body rv s] by blast
next
  case (7 list s)
  show ?case
  proof (intro impI)
    assume w: "wf_func (Branch list)" and c: "call_pre s"
    then have "\<exists>r. retExecuteList list s = Some r \<and> list_post s r"
      using 7 by simp
    then show "\<exists>r. call_func (Branch list) s = Some r \<and> call_post s r"
      by (rule call_branch)
  qed
qed

subsection \<open>The terminal report\<close>

lemma digit_char_no_LF: "char_of (of_char (CHR ''0'') + v - v div 10 * 10 :: nat) \<noteq> CHR 0x0A"
proof
  assume a: "char_of (of_char (CHR ''0'') + v - v div 10 * 10 :: nat) = CHR 0x0A"
  have e: "of_char (CHR ''0'') + v - v div 10 * 10 = 48 + v mod 10"
    by (simp add: minus_mult_div_eq_mod [symmetric] mult.commute)
  have "of_char (char_of (48 + v mod 10 :: nat)) = (of_char (CHR 0x0A) :: nat)"
    using a e by simp
  then have "(48 + v mod 10) mod 256 = (10 :: nat)"
    by (simp only: of_char_of) simp
  moreover have "48 + v mod 10 < (58 :: nat)"
    by simp
  ultimately show False
    by simp
qed

lemma dd_loop_no_LF: "CHR 0x0A \<notin> set work \<Longrightarrow> CHR 0x0A \<notin> set (dd_loop v ch work)"
proof (induction v ch work rule: dd_loop.induct)
  case (1 v ch work)
  have "set (work[ch - 1 := char_of (of_char (CHR ''0'') + v - v div 10 * 10)])
          \<subseteq> insert (char_of (of_char (CHR ''0'') + v - v div 10 * 10)) (set work)"
    by (rule set_update_subset_insert)
  then have w: "CHR 0x0A \<notin> set (work[ch - 1 := char_of (of_char (CHR ''0'') + v - v div 10 * 10)])"
    using 1(2) digit_char_no_LF [of v] by auto
  show ?case
    using 1(1) w by (subst dd_loop.simps) (simp add: Let_def)
qed

lemma line_text_split:
  "line_text t n str = butlast (line_text t n str) @ [CHR 0x0A]"
  by (simp add: line_text_def butlast_append)

lemma butlast_line_text_no_LF:
  assumes "CHR 0x0A \<notin> set str" "t \<noteq> CHR 0x0A"
  shows "CHR 0x0A \<notin> set (butlast (line_text t n str))"
proof -
  have "CHR 0x0A \<notin> set (dd_loop n 4 (replicate 10 (CHR '' '')))"
    by (rule dd_loop_no_LF) simp
  then have "CHR 0x0A \<notin> set (take 4 (dd_loop n 4 (replicate 10 (CHR '' ''))))"
    by (meson in_set_takeD)
  then show ?thesis
    using assms by (auto simp: line_text_def butlast_append)
qed

lemma retPutString_no_LF:
  assumes "CHR 0x0A \<notin> set str"
  shows "buf (retPutString str s) = buf s @ take (RET_REPORT_BUF_SIZE - length (buf s)) str
       \<and> sent (retPutString str s) = sent s"
  using assms
proof (induction str arbitrary: s)
  case Nil
  then show ?case by simp
next
  case (Cons c cs)
  show ?case
  proof (cases "length (buf s) < RET_REPORT_BUF_SIZE")
    case True
    moreover have "c \<noteq> CHR 0x0A"
      using Cons.prems by auto
    ultimately have p: "buf (retPutChar c s) = buf s @ [c]" "sent (retPutChar c s) = sent s"
      by (simp_all add: retPutChar_def Let_def)
    have "RET_REPORT_BUF_SIZE - length (buf s) = Suc (RET_REPORT_BUF_SIZE - Suc (length (buf s)))"
      using True by simp
    then show ?thesis
      using Cons.IH [of "retPutChar c s"] Cons.prems p by simp
  next
    case False
    then have "retPutString (c # cs) s = s"
      by (intro retPutString_full) simp
    then show ?thesis
      using False by simp
  qed
qed

lemma retExit_done_path_not_found:
  assumes "tag_found (param s) = 0 \<and> test_tag (param s) \<noteq> RET_ROOT_TAG"
  shows "(buf (retExit_done s) = []
          \<and> concat (sent (retExit_done s))
              = report s @ line_text (CHR ''I'') (next_line_number s) RET_PATH_ERR_MSG)
       \<or> RET_REPORT_BUF_SIZE \<le> length (buf (retExit_done s))"
proof -
  define body where "body = butlast (line_text (CHR ''I'') (next_line_number s) RET_PATH_ERR_MSG)"
  define s1 where "s1 = s\<lparr>events := EvPathNotFound # events s, is_pause := True,
      next_line_number := u32 (next_line_number s + 1)\<rparr>"
  define t where "t = retPutString body s1"
  have l: "line_text (CHR ''I'') (next_line_number s) RET_PATH_ERR_MSG = body @ [CHR 0x0A]"
    unfolding body_def by (rule line_text_split)
  have n: "CHR 0x0A \<notin> set body"
    unfolding body_def by (rule butlast_line_text_no_LF) (simp_all add: RET_PATH_ERR_MSG_def)
  have d: "retExit_done s = (retPutChar (CHR 0x0A) t)\<lparr>is_pause := is_pause s\<rparr>"
    using assms
    by (simp add: retExit_done_def retInfoLine_def retFormatLine_eq l retPutString_append
        RET_PAUSE_def t_def s1_def)
  have bt: "buf t = buf s @ take (RET_REPORT_BUF_SIZE - length (buf s)) body"
    and st: "sent t = sent s" and pt: "is_pause t"
    using retPutString_no_LF [OF n, of s1] by (simp_all add: t_def s1_def)
  show ?thesis
  proof (cases "length (buf t) < RET_REPORT_BUF_SIZE")
    case True
    then have "take (RET_REPORT_BUF_SIZE - length (buf s)) body = body"
      using bt by (simp add: min_def split: if_splits)
    then have "buf t = buf s @ body"
      using bt by simp
    then show ?thesis
      using True d st pt l by (simp add: retPutChar_def retSendBuffer_def Let_def report_def)
  next
    case False
    then show ?thesis
      using d by (simp add: retPutChar_full)
  qed
qed

lemma retExit_done_sentinel:
  assumes "\<not> (tag_found (param s) = 0 \<and> test_tag (param s) \<noteq> RET_ROOT_TAG)"
  shows "buf (retExit_done s) = [] \<and> sent (retExit_done s) \<noteq> []
       \<and> (concat (sent (retExit_done s)) = report s @ CHR 0x0A # RET_TEST_DONE_MSG
          \<or> RET_REPORT_BUF_SIZE \<le> length (last (sent (retExit_done s))))"
proof -
  define s1 where "s1 = s\<lparr>events := EvDone # events s\<rparr>"
  define t where "t = retPutLineFeed s1"
  define u where "u = retPutString RET_TEST_DONE_MSG t"
  have d: "retExit_done s = retSendBuffer u"
    using assms by (auto simp: retExit_done_def u_def t_def s1_def)
  have n: "CHR 0x0A \<notin> set RET_TEST_DONE_MSG"
    by (simp add: RET_TEST_DONE_MSG_def)
  have bu: "buf u = buf t @ take (RET_REPORT_BUF_SIZE - length (buf t)) RET_TEST_DONE_MSG"
    and su: "sent u = sent t"
    using retPutString_no_LF [OF n, of t] by (simp_all add: u_def)
  show ?thesis
  proof (cases "length (buf s) < RET_REPORT_BUF_SIZE")
    case room: True
    show ?thesis
    proof (cases "is_pause s")
      case True
      then have "buf t = []" "sent t = sent s @ [buf s @ [CHR 0x0A]]"
        using room
        by (simp_all add: t_def s1_def retPutLineFeed_def retPutChar_def retSendBuffer_def Let_def)
      then show ?thesis
        using d bu su
        by (simp add: retSendBuffer_def report_def RET_TEST_DONE_MSG_def RET_REPORT_BUF_SIZE_def)
    next
      case False
      then have bt: "buf t = buf s @ [CHR 0x0A]" and st: "sent t = sent s"
        using room
        by (simp_all add: t_def s1_def retPutLineFeed_def retPutChar_def Let_def)
      show ?thesis
      proof (cases "length (buf t) + 4 \<le> RET_REPORT_BUF_SIZE")
        case True
        then have "buf u = buf s @ CHR 0x0A # RET_TEST_DONE_MSG"
          using bu bt by (simp add: RET_TEST_DONE_MSG_def)
        then show ?thesis
          using d su st by (simp add: retSendBuffer_def report_def)
      next
        case False
        then have "RET_REPORT_BUF_SIZE \<le> length (buf u)"
          using bu by (simp add: RET_TEST_DONE_MSG_def)
        moreover have "buf u \<noteq> []"
          using bu bt by simp
        ultimately show ?thesis
          using d by (simp add: retSendBuffer_def)
      qed
    qed
  next
    case False
    then have "u = s1"
      by (simp add: u_def t_def retPutLineFeed_full retPutString_full s1_def)
    moreover have "buf s \<noteq> []"
      using False by (auto simp: RET_REPORT_BUF_SIZE_def)
    ultimately show ?thesis
      using d False by (simp add: retSendBuffer_def s1_def)
  qed
qed

subsection \<open>The root frame\<close>

lemma strstr_self: "strstr x x = Some 0"
  by (cases x) simp_all

lemma root_done:
  assumes "nest s = 0" "strstr (tag_str s) (test_tag (param s)) = None" "rv \<noteq> RET_ERR_TAG"
  shows "retExecuteList_exit 0 rv err s
           = Some (Return (if rv \<noteq> RET_PASS then RET_FAIL else err)
                          (retExit_done (s\<lparr>events := EvResult 0 rv # events s\<rparr>)))"
proof -
  have "tag_str s \<noteq> test_tag (param s)"
    using assms(2) strstr_self [of "tag_str s"] by auto
  then have "retExit rv (s\<lparr>events := EvResult 0 rv # events s\<rparr>)
               = Return () (retExit_done (s\<lparr>events := EvResult 0 rv # events s\<rparr>))"
    using assms by (simp add: retExit_def retExit_report_def retFindTagToken_def)
  then show ?thesis
    by (subst retExecuteList_exit.simps) simp
qed

lemma root_exit:
  assumes n: "nest s3 = 1" and t: "tag_str s3 \<noteq> []" and e: "env_tag_ptr s3 0 = 0"
    and rv: "rv \<noteq> RET_ERR_TAG"
  shows "\<exists>v s1 new. retExecuteList_exit 0 rv err s3 = Some (Return v (retExit_done s1))
           \<and> events s1 = new @ events s3 \<and> list_all (inner_event 0) new
           \<and> test_tag (param s1) = test_tag (param s3)"
proof -
  define sR where "sR = s3\<lparr>events := EvResult 0 rv # events s3\<rparr>"
  obtain s4 where s4: "retExit_report rv sR = Return () s4"
    using retExit_report_ok [of sR rv] n by (auto simp: sR_def RET_MAX_NEST_SIZE_def)
  note f4 = retExit_report_Return [OF s4]
  show ?thesis
  proof (cases "tag_str s4 = test_tag (param s4)")
    case True
    define s5 where "s5 = s4\<lparr>tag_ptr := 0, tag_str := [], nest := 0\<rparr>"
    define w where "w = (if ret_val_int rv = 0 then 1 else int (ret_val_int rv))"
    have w: "longjmp_retval w = RET_PASS"
      by (simp add: w_def longjmp_retval_def)
    have rm: "retRemoveTag 0 s4 = Return () s5"
      using f4 e by (simp add: retRemoveTag_def s5_def sR_def RET_MAX_NEST_SIZE_def)
    have x: "retExit rv sR = Longjmp 0 w s5"
      using rv s4 True rm by (simp add: retExit_def w_def)
    have "test_tag (param s5) \<noteq> []"
      using True f4 t by (simp add: s5_def sR_def)
    then have "strstr (tag_str s5) (test_tag (param s5)) = None"
      by (simp add: s5_def)
    then have d: "retExecuteList_exit 0 RET_PASS (if rv \<noteq> RET_PASS then RET_FAIL else err) s5
        = Some (Return (if rv \<noteq> RET_PASS then RET_FAIL else err)
                 (retExit_done (s5\<lparr>events := EvResult 0 RET_PASS # events s5\<rparr>)))"
      using root_done [of s5 RET_PASS] by (simp add: s5_def)
    have "retExecuteList_exit 0 rv err s3
        = Some (Return (if rv \<noteq> RET_PASS then RET_FAIL else err)
                 (retExit_done (s5\<lparr>events := EvResult 0 RET_PASS # events s5\<rparr>)))"
      using x w d by (subst retExecuteList_exit.simps) (simp add: sR_def)
    moreover have "events (s5\<lparr>events := EvResult 0 RET_PASS # events s5\<rparr>)
        = [EvResult 0 RET_PASS, EvResult 0 rv] @ events s3"
      using f4 by (simp add: s5_def sR_def)
    moreover have "test_tag (param (s5\<lparr>events := EvResult 0 RET_PASS # events s5\<rparr>))
        = test_tag (param s3)"
      using f4 by (simp add: s5_def sR_def)
    moreover have "list_all (inner_event 0) [EvResult 0 RET_PASS, EvResult 0 rv]"
      by simp
    ultimately show ?thesis
      by blast
  next
    case False
    define s5 where "s5 = s4\<lparr>tag_ptr := 0, tag_str := [], nest := 0\<rparr>"
    have rm: "retRemoveTag (nest s4 - 1) s4 = Return () s5"
      using f4 e n by (simp add: retRemoveTag_def s5_def sR_def RET_MAX_NEST_SIZE_def)
    have x: "retExit rv sR = Return () (retExit_done s5)"
      using rv s4 False rm f4 n by (simp add: retExit_def s5_def sR_def)
    have "retExecuteList_exit 0 rv err s3
        = Some (Return (if rv \<noteq> RET_PASS then RET_FAIL else err) (retExit_done s5))"
      using x by (subst retExecuteList_exit.simps) (simp add: sR_def)
    moreover have "events s5 = [EvResult 0 rv] @ events s3"
      using f4 by (simp add: s5_def sR_def)
    moreover have "test_tag (param s5) = test_tag (param s3)"
      using f4 by (simp add: s5_def sR_def)
    moreover have "list_all (inner_event 0) [EvResult 0 rv]"
      by simp
    ultimately show ?thesis
      by blast
  qed
qed

lemma root_unwound:
  assumes "nest s3 = 0" "tag_str s3 = []" "test_tag (param s3) \<noteq> []"
  shows "\<exists>v s1 new. retExecuteList_exit 0 RET_PASS err s3 = Some (Return v (retExit_done s1))
           \<and> events s1 = new @ events s3 \<and> list_all (inner_event 0) new
           \<and> test_tag (param s1) = test_tag (param s3)"
proof -
  have "strstr (tag_str s3) (test_tag (param s3)) = None"
    using assms by simp
  then have "retExecuteList_exit 0 RET_PASS err s3
      = Some (Return err (retExit_done (s3\<lparr>events := EvResult 0 RET_PASS # events s3\<rparr>)))"
    using root_done [of s3 RET_PASS err] assms(1) by simp
  moreover have "events (s3\<lparr>events := EvResult 0 RET_PASS # events s3\<rparr>)
      = [EvResult 0 RET_PASS] @ events s3"
    by simp
  moreover have "list_all (inner_event 0) [EvResult 0 RET_PASS]"
    by simp
  moreover have "test_tag (param (s3\<lparr>events := EvResult 0 RET_PASS # events s3\<rparr>))
      = test_tag (param s3)"
    by simp
  ultimately show ?thesis
    by blast
qed

lemma quiet_from_0:
  assumes "quiet_from k s s'"
  shows "\<exists>new. events s' = new @ events s \<and> list_all (inner_event 0) new"
proof -
  have "quiet_from 0 s s'"
    using assms by (rule quiet_from_mono) simp
  then show ?thesis
    unfolding quiet_from_def by blast
qed

text \<open>The root turn: from the armed root frame to the end of the test.\<close>

lemma root_turn:
  assumes wf: "wf_func RunTrunk"
    and s: "nest s = 0" "tag_str s = []" "tag_ptr s = 0" "env_tag_ptr s 0 = 0"
      "retval (param s) = 0"
  shows "\<exists>v s1 new. retExecuteList_turn (Test RunTrunk RET_ROOT_TAG) err s
             = Some (Return v (retExit_done s1))
           \<and> events s1 = new @ events s \<and> list_all (inner_event 0) new
           \<and> test_tag (param s1) = test_tag (param s)"
proof -
  define s1 where "s1 = s\<lparr>tag_ptr := 5, tag_str := ''@ROOT'', nest := 1\<rparr>"
  have a: "retAddTag RET_ROOT_TAG s = Return RET_PASS s1"
    using s by (simp add: retAddTag_def Let_def s1_def cfg_defs)
  obtain s2 where m: "retEnter_mode s1 = Return () s2"
    using retEnter_mode_ok [of s1] by (auto simp: s1_def RET_MAX_NEST_SIZE_def)
  note f2 = retEnter_mode_Return [OF m]
  define sc where "sc = s2\<lparr>events := EvCall (tag_str s2) # events s2\<rparr>"
  have cp: "call_pre sc"
    using f2 s by (simp add: call_pre_def engine_inv_def sc_def s1_def RET_MAX_NEST_SIZE_def)
  obtain r where r: "call_func RunTrunk sc = Some r" "call_post sc r"
    using master(5) [of RunTrunk sc] wf cp by blast
  have c: "nest sc = 1" "tag_str sc = ''@ROOT''" "env_tag_ptr sc 0 = 0"
    "test_tag (param sc) = test_tag (param s)" "events sc = [EvCall ''@ROOT''] @ events s"
    using f2 s by (simp_all add: sc_def s1_def)
  have t: "retExecuteList_turn (Test RunTrunk RET_ROOT_TAG) err s
             = retExecuteList_catch 0 err (Some r)"
    using a m r(1) s(1) by (simp add: sc_def RET_MAX_NEST_SIZE_def)
  have k: "\<exists>v s1 new. retExecuteList_catch 0 err (Some r) = Some (Return v (retExit_done s1))
           \<and> events s1 = new @ events sc \<and> list_all (inner_event 0) new
           \<and> test_tag (param s1) = test_tag (param sc)"
  proof (cases r)
    case (Return rv s3)
    then have p: "rv \<noteq> RET_ERR_TAG" "same_frame 1 sc s3" "quiet_from 1 sc s3"
      using r(2) c(1) by (simp_all add: call_post_def)
    have f: "nest s3 = 1" "tag_str s3 \<noteq> []" "env_tag_ptr s3 0 = 0"
      "test_tag (param s3) = test_tag (param sc)"
      using p(2) c by (simp_all add: same_frame_def)
    obtain v sx new where x: "retExecuteList_exit 0 rv err s3 = Some (Return v (retExit_done sx))"
      "events sx = new @ events s3" "list_all (inner_event 0) new"
      "test_tag (param sx) = test_tag (param s3)"
      using root_exit [OF f(1,2,3) p(1), of err] by blast
    obtain new3 where y: "events s3 = new3 @ events sc" "list_all (inner_event 0) new3"
      using quiet_from_0 [OF p(3)] by blast
    have "events sx = (new @ new3) @ events sc" "list_all (inner_event 0) (new @ new3)"
      using x y by simp_all
    then show ?thesis
      using Return x(1,4) f(4) by (auto simp: retExecuteList_catch_def simp del: append_assoc)
  next
    case (Longjmp j w s3)
    obtain new3 where y: "events s3 = new3 @ events sc" "list_all (inner_event 0) new3"
      using quiet_from_0 [of 1 sc s3] r(2) Longjmp c(1) by (auto simp: call_post_def)
    have j: "j = 0"
      using r(2) Longjmp c(1) by (auto simp: call_post_def)
    show ?thesis
    proof (cases "w = - 1")
      case True
      then have p: "same_frame 1 sc s3"
        using r(2) Longjmp c(1) by (auto simp: call_post_def)
      have f: "nest s3 = 1" "tag_str s3 \<noteq> []" "env_tag_ptr s3 0 = 0"
        "test_tag (param s3) = test_tag (param sc)"
        using p c by (simp_all add: same_frame_def)
      obtain v sx new where x:
        "retExecuteList_exit 0 RET_FAIL err s3 = Some (Return v (retExit_done sx))"
        "events sx = new @ events s3" "list_all (inner_event 0) new"
        "test_tag (param sx) = test_tag (param s3)"
        using root_exit [OF f(1,2,3), of RET_FAIL err] by auto
      have "events sx = (new @ new3) @ events sc" "list_all (inner_event 0) (new @ new3)"
        using x y by simp_all
      then show ?thesis
        using Longjmp True j x(1,4) f(4)
        by (auto simp: retExecuteList_catch_def longjmp_retval_def simp del: append_assoc)
    next
      case False
      then have p: "unwound sc s3"
        using r(2) Longjmp c(1) by (auto simp: call_post_def)
      have f: "nest s3 = 0" "tag_str s3 = []" "test_tag (param s3) \<noteq> []"
        "test_tag (param s3) = test_tag (param sc)"
        using p c by (auto simp: unwound_def)
      obtain v sx new where x:
        "retExecuteList_exit 0 RET_PASS err s3 = Some (Return v (retExit_done sx))"
        "events sx = new @ events s3" "list_all (inner_event 0) new"
        "test_tag (param sx) = test_tag (param s3)"
        using root_unwound [OF f(1,2,3), of err] by auto
      have "events sx = (new @ new3) @ events sc" "list_all (inner_event 0) (new @ new3)"
        using x y by simp_all
      then show ?thesis
        using Longjmp False j x(1,4) f(4)
        by (auto simp: retExecuteList_catch_def longjmp_retval_def simp del: append_assoc)
    qed
  next
    case Fault
    then show ?thesis
      using r(2) by (simp add: call_post_def)
  qed
  then obtain v sx new where x: "retExecuteList_catch 0 err (Some r) = Some (Return v (retExit_done sx))"
    "events sx = new @ events sc" "list_all (inner_event 0) new"
    "test_tag (param sx) = test_tag (param sc)"
    by blast
  have "events sx = (new @ [EvCall ''@ROOT'']) @ events s"
    "list_all (inner_event 0) (new @ [EvCall ''@ROOT''])"
    using x c by simp_all
  then show ?thesis
    using t x(1,4) c(4) by (metis (no_types))
qed

lemma inner_event_not_terminal:
  "list_all (inner_event 0) evs \<Longrightarrow> EvDone \<notin> set evs \<and> EvPathNotFound \<notin> set evs"
  by (induction evs) auto

lemma run_terminal:
  assumes wf: "wf_func RunTrunk"
  shows "\<exists>v s1 evs. retStart m tg RunTrunk s0
             = Some (Return v ((retExit_done s1)\<lparr>is_pause := RET_PAUSE\<rparr>))
           \<and> events s1 = evs @ events s0 \<and> list_all (inner_event 0) evs
           \<and> test_tag (param s1) = tg"
proof -
  define s where "s = s0\<lparr>next_line_number := 0, tag_str := [], tag_ptr := 0, nest := 0,
      is_pause := RET_PAUSE, buf := [],
      param := \<lparr>mode = m, test_tag = tg, tag_found = 0, retval = 0\<rparr>,
      env_tag_ptr := (env_tag_ptr s0)(0 := 0)\<rparr>"
  obtain v s1 new where x: "retExecuteList_turn (Test RunTrunk RET_ROOT_TAG) RET_PASS s
             = Some (Return v (retExit_done s1))"
      "events s1 = new @ events s" "list_all (inner_event 0) new"
      "test_tag (param s1) = test_tag (param s)"
    using root_turn [OF wf, of s RET_PASS] by (auto simp: s_def)
  have "retStart m tg RunTrunk s0 = Some (Return v ((retExit_done s1)\<lparr>is_pause := RET_PAUSE\<rparr>))"
    using x(1) unfolding retStart_def s_def
    by (simp add: RET_MAX_NEST_SIZE_def del: retExecuteList_turn.simps)
  then show ?thesis
    using x(2,3,4) by (auto simp: s_def)
qed

section \<open>The token test\<close>

text \<open>
  C1. The claim: the token test succeeds exactly when the target occurs in the tag path
  followed by the delimiter or by the end of the string. \<^verbatim>\<open>retFindTagToken\<close> looks
  only at the first occurrence that \<^verbatim>\<open>strstr\<close> returns. For a leaf \<open>Test1\<close> under a
  branch \<open>Test12\<close> the path is \<open>@ROOT@Test12@Test1\<close>: the target \<open>Test1\<close> occurs at
  its end as an exact token, the first occurrence lies inside \<open>Test12\<close>, and the test
  fails.
\<close>

theorem retFindTagToken_misses_later_token:
  "occurs_as_token ''@ROOT@Test12@Test1'' ''Test1''
   \<and> fst (retFindTagToken (at_path ''@ROOT@Test12@Test1'' RET_MODE_EXE ''Test1'')) = False"
  by (simp add: occurs_as_token_def retFindTagToken_def at_path_def power_on_def char_at_def
      RET_TOKEN_DELIMITER_def upt_rec)

section \<open>Early termination\<close>

text \<open>
  C2. The claim: when the target tag names one leaf deep in the tree, the run ends as
  soon as that leaf completes and no remaining sibling is visited. \<^verbatim>\<open>retExit\<close>
  compares the whole tag path with the target, so a target that is the leaf's own tag
  never ends the run: in the tree \<open>ROOT / g / {A, B}\<close> with target \<open>A\<close>, the function
  of \<open>B\<close> is called after \<open>A\<close> has completed (its guard returns at once), and every
  frame runs to its end.
\<close>

theorem bare_tag_target_visits_sibling:
  "run_events (retStart RET_MODE_EXE ''A''
     (Branch [Test (Branch [Test (Leaf [] RET_PASS) ''A'', Test (Leaf [] RET_PASS) ''B'']) ''g''])
     (power_on [])) =
   Some [EvCall ''@ROOT'', EvCall ''@ROOT@g'', EvCall ''@ROOT@g@A'',
    EvBody ''@ROOT@g@A'', EvResult 2 RET_PASS, EvCall ''@ROOT@g@B'',
    EvResult 2 RET_PASS, EvResult 1 RET_PASS, EvResult 0 RET_PASS, EvDone]"
  by (simp add: cfg_defs eng_defs retExecuteList_exit.simps)

section \<open>Search lines\<close>

text \<open>
  C3. The claim: in search mode each \<open>S\<close> line is transmitted through the sink as soon
  as its line terminator is written. \<^verbatim>\<open>retSearchLine\<close> formats the line with
  \<^verbatim>\<open>RET_NO_PAUSE\<close>, so writing the line, terminator included, transmits nothing:
  the sink has received after the call what it had received before.
\<close>

theorem retSearchLine_transmits_nothing:
  "sent (retSearchLine str s) = sent s"
  by (simp add: retSearchLine_def RET_NO_PAUSE_def sent_retFormatLine_quiet)

section \<open>Tag overflow\<close>

text \<open>
  C6. When the current length of the path, one delimiter and the tag reach the maximum,
  \<^verbatim>\<open>retAddTag\<close> returns the tag error and leaves the state as it was. The turn of the
  loop for that node returns with a failure recorded; the function of the node is never
  called (the only event of the turn is the recorded result); the path, the cursor, the
  depth and the user's parameters are those before the turn, so the next node's tag is
  appended to the same path; two report lines are numbered; and, when the buffer has
  room for them, the bytes put out are the info line with the tag error message
  followed by the result line of the tag error. The loop goes on with the next node.
\<close>

theorem tag_overflow_skips_node:
  assumes "tag_ptr s = length (tag_str s)"
    and "length (tag_str s) + 1 + length tag \<ge> RET_MAX_TAG_STRING_SIZE"
    and "nest s < RET_MAX_NEST_SIZE"
  shows "retAddTag tag s = Return RET_ERR_TAG s
    \<and> (\<exists>s'. retExecuteList_turn (Test func tag) err_flag s = Some (Return RET_FAIL s')
          \<and> retExecuteList_loop (Test func tag # rest) err_flag s
              = retExecuteList_loop rest RET_FAIL s'
          \<and> tag_str s' = tag_str s \<and> tag_ptr s' = tag_ptr s \<and> nest s' = nest s
          \<and> param s' = param s
          \<and> events s' = EvResult (nest s) RET_ERR_TAG # events s
          \<and> next_line_number s' = u32 (u32 (next_line_number s + 1) + 1)
          \<and> (length (buf s)
                + length (line_text (CHR ''I'') (next_line_number s) RET_TAG_ERR_MSG)
                + length (test_line_text RET_ERR_TAG (u32 (next_line_number s + 1)) 0 (tag_str s))
                \<le> RET_REPORT_BUF_SIZE \<longrightarrow>
              report s'
                = report s @ line_text (CHR ''I'') (next_line_number s) RET_TAG_ERR_MSG
                    @ test_line_text RET_ERR_TAG (u32 (next_line_number s + 1)) 0 (tag_str s)))"
proof -
  define sI where "sI = (retInfoLineFmt RET_TAG_ERR_MSG s)
                     \<lparr>events := EvResult (nest s) RET_ERR_TAG # events s\<rparr>"
  define s' where "s' = retTestLineFormat RET_ERR_TAG 0 sI"
  have a: "retAddTag tag s = Return RET_ERR_TAG s"
    using assms by (simp add: retAddTag_def Let_def)
  have t: "retExecuteList_turn (Test func tag) err_flag s = Some (Return RET_FAIL s')"
    using assms a
    by (simp add: retExecuteList_catch_def retExecuteList_exit_tag_error s'_def sI_def)
  have l: "retExecuteList_loop (Test func tag # rest) err_flag s
              = retExecuteList_loop rest RET_FAIL s'"
    using t by (simp del: retExecuteList_turn.simps)
  have f: "tag_str s' = tag_str s \<and> tag_ptr s' = tag_ptr s \<and> nest s' = nest s
          \<and> param s' = param s
          \<and> events s' = EvResult (nest s) RET_ERR_TAG # events s
          \<and> next_line_number s' = u32 (u32 (next_line_number s + 1) + 1)"
    by (simp add: s'_def sI_def)
  have r: "report s'
                = report s @ line_text (CHR ''I'') (next_line_number s) RET_TAG_ERR_MSG
                    @ test_line_text RET_ERR_TAG (u32 (next_line_number s + 1)) 0 (tag_str s)"
    if room: "length (buf s)
                + length (line_text (CHR ''I'') (next_line_number s) RET_TAG_ERR_MSG)
                + length (test_line_text RET_ERR_TAG (u32 (next_line_number s + 1)) 0 (tag_str s))
                \<le> RET_REPORT_BUF_SIZE"
  proof -
    have i: "report (retInfoLineFmt RET_TAG_ERR_MSG s)
               = report s @ line_text (CHR ''I'') (next_line_number s) RET_TAG_ERR_MSG
             \<and> length (buf (retInfoLineFmt RET_TAG_ERR_MSG s))
                 \<le> length (buf s)
                     + length (line_text (CHR ''I'') (next_line_number s) RET_TAG_ERR_MSG)"
      using room by (intro report_retInfoLineFmt) simp
    have b: "buf sI = buf (retInfoLineFmt RET_TAG_ERR_MSG s)"
        "report sI = report (retInfoLineFmt RET_TAG_ERR_MSG s)"
        "next_line_number sI = u32 (next_line_number s + 1)" "tag_str sI = tag_str s"
      by (simp_all add: sI_def)
    have "report (retTestLineFormat RET_ERR_TAG 0 sI)
            = report sI @ test_line_text RET_ERR_TAG (next_line_number sI) 0 (tag_str sI)"
      using room i b report_retTestLineFormat [of sI RET_ERR_TAG 0] by simp
    with i b show ?thesis
      by (simp add: s'_def)
  qed
  from a t l f r show ?thesis
    by blast
qed

theorem tag_overflow_skips_node_witness:
  "tag_ptr (at_path (replicate 250 (CHR ''x'')) RET_MODE_EXE ''ROOT'')
     = length (tag_str (at_path (replicate 250 (CHR ''x'')) RET_MODE_EXE ''ROOT''))
   \<and> length (tag_str (at_path (replicate 250 (CHR ''x'')) RET_MODE_EXE ''ROOT'')) + 1
        + length ''abcdef'' \<ge> RET_MAX_TAG_STRING_SIZE
   \<and> nest (at_path (replicate 250 (CHR ''x'')) RET_MODE_EXE ''ROOT'') < RET_MAX_NEST_SIZE
   \<and> retAddTag ''abcdef'' (at_path (replicate 250 (CHR ''x'')) RET_MODE_EXE ''ROOT'')
       = Return RET_ERR_TAG (at_path (replicate 250 (CHR ''x'')) RET_MODE_EXE ''ROOT'')
   \<and> (\<exists>s'. retExecuteList_turn (Test (Leaf [] RET_PASS) ''abcdef'') RET_PASS
               (at_path (replicate 250 (CHR ''x'')) RET_MODE_EXE ''ROOT'')
             = Some (Return RET_FAIL s')
          \<and> tag_str s' = replicate 250 (CHR ''x'')
          \<and> events s' = [EvResult 0 RET_ERR_TAG]
          \<and> report s' = ''I,   0,    ,      ,Error: RET_MAX_TAG_STRING_SIZE exceeded''
                          @ [CHR 0x0A] @ ''T,   1,TAG_ID,     0,''
                          @ replicate 250 (CHR ''x'') @ [CHR 0x0A])"
proof -
  define S where "S = at_path (replicate 250 (CHR ''x'')) RET_MODE_EXE ''ROOT''"
  have h: "tag_ptr S = length (tag_str S)"
      "length (tag_str S) + 1 + length ''abcdef'' \<ge> RET_MAX_TAG_STRING_SIZE"
      "nest S < RET_MAX_NEST_SIZE"
    by (simp_all add: S_def at_path_def power_on_def cfg_defs)
  have f: "buf S = []" "sent S = []" "next_line_number S = 0" "events S = []" "nest S = 0"
      "tag_str S = replicate 250 (CHR ''x'')"
    by (simp_all add: S_def at_path_def power_on_def)
  have room: "length (buf S)
                + length (line_text (CHR ''I'') (next_line_number S) RET_TAG_ERR_MSG)
                + length (test_line_text RET_ERR_TAG (u32 (next_line_number S + 1)) 0 (tag_str S))
                \<le> RET_REPORT_BUF_SIZE"
    by (simp add: f length_line_text length_test_line_text RET_TAG_ERR_MSG_def
        RET_RETVAL_STR_def RET_REPORT_BUF_SIZE_def cfg_defs)
  from tag_overflow_skips_node [OF h, of "Leaf [] RET_PASS" RET_PASS "[]"] room
  obtain s' where
    a: "retAddTag ''abcdef'' S = Return RET_ERR_TAG S"
    and t: "retExecuteList_turn (Test (Leaf [] RET_PASS) ''abcdef'') RET_PASS S
             = Some (Return RET_FAIL s')"
    and p: "tag_str s' = tag_str S" "events s' = EvResult (nest S) RET_ERR_TAG # events S"
    and r: "report s'
                = report S @ line_text (CHR ''I'') (next_line_number S) RET_TAG_ERR_MSG
                    @ test_line_text RET_ERR_TAG (u32 (next_line_number S + 1)) 0 (tag_str S)"
    by blast
  have r': "report s' = ''I,   0,    ,      ,Error: RET_MAX_TAG_STRING_SIZE exceeded''
                          @ [CHR 0x0A] @ ''T,   1,TAG_ID,     0,''
                          @ replicate 250 (CHR ''x'') @ [CHR 0x0A]"
    unfolding r
    by (simp add: f report_def line_text_def test_line_text_def RET_TAG_ERR_MSG_def
        RET_RETVAL_STR_def cfg_defs digits_0_4 digits_1_4 digits_Suc_0_4 digits_0_6)
  from h a t p r' show ?thesis
    unfolding S_def [symmetric] f by blast
qed

section \<open>Append and remove\<close>

text \<open>
  C9. In a state of the executor at depth \<open>d\<close> (the cursor at the end of the path, slot
  \<open>d\<close> holding the cursor), a successful \<^verbatim>\<open>retAddTag\<close> followed by
  \<^verbatim>\<open>retRemoveTag(d)\<close> gives back the state before the append: the same path, the same
  cursor, the depth \<open>d\<close>.
\<close>

theorem add_remove_round_trip:
  assumes "nest s < RET_MAX_NEST_SIZE"
    and "env_tag_ptr s (nest s) = tag_ptr s"
    and "tag_ptr s = length (tag_str s)"
    and "retAddTag tag s = Return RET_PASS s1"
  shows "tag_str s1 = tag_str s @ RET_TOKEN_DELIMITER # tag \<and> nest s1 = nest s + 1
    \<and> retRemoveTag (nest s) s1 = Return () s"
  using assms
  by (auto simp: retAddTag_def retRemoveTag_def Let_def cfg_defs split: if_splits)

theorem add_remove_round_trip_witness:
  "nest (below_root RET_MODE_EXE ''ROOT'') < RET_MAX_NEST_SIZE
   \<and> env_tag_ptr (below_root RET_MODE_EXE ''ROOT'') (nest (below_root RET_MODE_EXE ''ROOT''))
       = tag_ptr (below_root RET_MODE_EXE ''ROOT'')
   \<and> tag_ptr (below_root RET_MODE_EXE ''ROOT'')
       = length (tag_str (below_root RET_MODE_EXE ''ROOT''))
   \<and> retAddTag ''group'' (below_root RET_MODE_EXE ''ROOT'')
       = Return RET_PASS
           ((below_root RET_MODE_EXE ''ROOT'')
              \<lparr>tag_ptr := 11, tag_str := ''@ROOT@group'', nest := 2\<rparr>)
   \<and> retRemoveTag 1
        ((below_root RET_MODE_EXE ''ROOT'')
           \<lparr>tag_ptr := 11, tag_str := ''@ROOT@group'', nest := 2\<rparr>)
       = Return () (below_root RET_MODE_EXE ''ROOT'')"
proof -
  have a: "retAddTag ''group'' (below_root RET_MODE_EXE ''ROOT'')
       = Return RET_PASS
           ((below_root RET_MODE_EXE ''ROOT'')
              \<lparr>tag_ptr := 11, tag_str := ''@ROOT@group'', nest := 2\<rparr>)"
    by (simp add: retAddTag_def below_root_def at_path_def power_on_def cfg_defs)
  have n: "nest (below_root RET_MODE_EXE ''ROOT'') = 1"
    by (simp add: below_root_def)
  show ?thesis
    using add_remove_round_trip [OF _ _ _ a] a n
    by (simp add: below_root_def at_path_def power_on_def cfg_defs)
qed

section \<open>The value of a jump\<close>

text \<open>
  C10. The \<^verbatim>\<open>switch\<close> of \<^verbatim>\<open>retExecuteList\<close> gives a failure for the value -1 and a
  pass for every other value. A jump out of \<^verbatim>\<open>retExit\<close> goes to slot 0 and carries
  the result of the completed node, 1 in place of 0; so it is never -1, and the frame
  that catches it goes on with a pass, whatever the result was.
\<close>

theorem exit_jump_recorded_as_pass:
  "(longjmp_retval v = RET_FAIL \<longleftrightarrow> v = - 1)
   \<and> (longjmp_retval v = RET_PASS \<longleftrightarrow> v \<noteq> - 1)
   \<and> (retExit rv s = Longjmp k w s' \<longrightarrow>
        k = 0 \<and> w = (if rv = RET_PASS then 1 else int (ret_val_int rv))
        \<and> longjmp_retval w = RET_PASS
        \<and> retExecuteList_catch k err_flag (Some (Longjmp k w s'))
            = retExecuteList_exit k RET_PASS err_flag s')"
  by (cases rv)
     (auto simp: longjmp_retval_def retExit_def retExecuteList_catch_def retRemoveTag_no_jump
                 retExit_report_no_jump
           split: outcome.splits if_splits)

theorem exit_jump_recorded_as_pass_witness:
  "jump_of (retExit RET_FAIL ((at_path ''@ROOT@A'' RET_MODE_EXE ''@ROOT@A'')\<lparr>nest := 2\<rparr>))
     = Some (0, 1)
   \<and> longjmp_retval 1 = RET_PASS"
proof -
  obtain s' where e:
    "retExit RET_FAIL ((at_path ''@ROOT@A'' RET_MODE_EXE ''@ROOT@A'')\<lparr>nest := 2\<rparr>)
       = Longjmp 0 1 s'"
    by (simp add: cfg_defs eng_defs)
  from exit_jump_recorded_as_pass [of 1 RET_FAIL _ 0 1 s'] e show ?thesis
    by (simp add: jump_of_def)
qed

section \<open>Assertions\<close>




section \<open>The bound of the report buffer\<close>

text \<open>
  C4. The claim: every store into the report buffer, the terminator of
  \<^verbatim>\<open>retSendBuffer\<close> included, is at an index below \<^verbatim>\<open>RET_REPORT_BUF_SIZE\<close>.
  \<^verbatim>\<open>retPutChar\<close> keeps its stores below the size and drops what arrives when the
  buffer is full, but \<^verbatim>\<open>retSendBuffer\<close> stores the terminator at the cursor without
  a test. A leaf that writes fifteen info lines of 256 bytes fills the buffer; every
  later byte is dropped, and the flush at the end of the run stores the terminator at
  index \<^verbatim>\<open>RET_REPORT_BUF_SIZE\<close>, one past the array.
\<close>

theorem terminator_stored_past_buffer:
  "map_option hd
     (run_stores
        (retStart RET_MODE_EXE ''ROOT''
           (Branch [Test (Leaf (replicate 15 (InfoLineFmt (replicate 256 (CHR ''x'')))) RET_PASS)
                      ''A''])
           (power_on [])))
   = Some RET_REPORT_BUF_SIZE"
  by (simp add: cfg_defs eng_defs retExecuteList_exit.simps run_stores_def
      run_stmts_replicate_info length_buf_repeat_info_15 retTestLineFormat_full
      retPutString_full retPutChar_full retPutLineFeed_full retSendBuffer_full
      RET_TEST_DONE_MSG_def)

section \<open>The terminal report of a run\<close>

text \<open>
  C8, as claimed: every run ends with one of two terminal reports and never ends the
  reporting phase silently; when the target was found or is the root tag, a line with
  the DONE sentinel is emitted and the buffer is flushed. The sentinel goes through
  \<^verbatim>\<open>retPutChar\<close> like every other byte, and \<^verbatim>\<open>retPutChar\<close> drops what arrives when
  the buffer is full. A leaf that writes fifteen info lines of 256 bytes fills the
  buffer: the run takes the branch of the sentinel (its last event), but nothing that
  the run puts out holds \<^verbatim>\<open>DONE\<close>.
\<close>

theorem full_buffer_drops_done:
  "run_report_has RET_TEST_DONE_MSG
     (retStart RET_MODE_EXE ''ROOT''
        (Branch [Test (Leaf (replicate 15 (InfoLineFmt (replicate 256 (CHR ''x'')))) RET_PASS)
                   ''A''])
        (power_on []))
   = Some False
   \<and> run_events
     (retStart RET_MODE_EXE ''ROOT''
        (Branch [Test (Leaf (replicate 15 (InfoLineFmt (replicate 256 (CHR ''x'')))) RET_PASS)
                   ''A''])
        (power_on []))
   = Some [EvCall ''@ROOT'', EvCall ''@ROOT@A'', EvBody ''@ROOT@A'', EvResult 1 RET_PASS,
           EvResult 0 RET_PASS, EvDone]"
  by (simp add: cfg_defs eng_defs retExecuteList_exit.simps run_report_has_def report_def
      run_stmts_replicate_info length_buf_repeat_info_15 retTestLineFormat_full
      retPutString_full retPutChar_full retPutLineFeed_full retSendBuffer_full
      RET_TEST_DONE_MSG_def sent_repeat_info report_repeat_info_15_no_DONE)

text \<open>
  C8, amended. For every well-formed tree, every mode, every target and every initial
  state, \<^verbatim>\<open>retStart\<close> returns; the last event of the run is its one terminal report,
  the path-not-found report when no node matched and the target is not the root tag,
  the sentinel otherwise. In the first case the info line with the path error message
  ends what the sink received and the buffer is empty, unless the line did not fit:
  then the buffer stays full and the line is not transmitted. In the second case the
  buffer is flushed, and what the sink received ends with a line feed and the
  sentinel, unless the last transmission is a full buffer.
\<close>

theorem run_ends_with_terminal_report:
  assumes "wf_func RunTrunk"
  shows "\<exists>v s' evs.
      retStart m tg RunTrunk s0 = Some (Return v s')
    \<and> events s'
        = (if tag_found (param s') = 0 \<and> tg \<noteq> RET_ROOT_TAG then EvPathNotFound else EvDone)
            # evs @ events s0
    \<and> EvDone \<notin> set evs \<and> EvPathNotFound \<notin> set evs
    \<and> (if tag_found (param s') = 0 \<and> tg \<noteq> RET_ROOT_TAG
       then (buf s' = []
             \<and> (\<exists>pre n. concat (sent s') = pre @ line_text (CHR ''I'') n RET_PATH_ERR_MSG))
            \<or> RET_REPORT_BUF_SIZE \<le> length (buf s')
       else buf s' = [] \<and> sent s' \<noteq> []
            \<and> ((\<exists>pre. concat (sent s') = pre @ CHR 0x0A # RET_TEST_DONE_MSG)
               \<or> RET_REPORT_BUF_SIZE \<le> length (last (sent s'))))"
proof -
  obtain v s1 evs where r:
    "retStart m tg RunTrunk s0 = Some (Return v ((retExit_done s1)\<lparr>is_pause := RET_PAUSE\<rparr>))"
    "events s1 = evs @ events s0" "list_all (inner_event 0) evs" "test_tag (param s1) = tg"
    using run_terminal [OF assms, of m tg s0] by blast
  define s' where "s' = (retExit_done s1)\<lparr>is_pause := RET_PAUSE\<rparr>"
  have p: "param s' = param s1"
    by (simp add: s'_def)
  have e: "events s'
        = (if tag_found (param s') = 0 \<and> tg \<noteq> RET_ROOT_TAG then EvPathNotFound else EvDone)
            # evs @ events s0"
    using r(2,4) by (simp add: s'_def events_retExit_done)
  have n: "EvDone \<notin> set evs \<and> EvPathNotFound \<notin> set evs"
    using r(3) by (rule inner_event_not_terminal)
  have o: "if tag_found (param s') = 0 \<and> tg \<noteq> RET_ROOT_TAG
       then (buf s' = []
             \<and> (\<exists>pre n. concat (sent s') = pre @ line_text (CHR ''I'') n RET_PATH_ERR_MSG))
            \<or> RET_REPORT_BUF_SIZE \<le> length (buf s')
       else buf s' = [] \<and> sent s' \<noteq> []
            \<and> ((\<exists>pre. concat (sent s') = pre @ CHR 0x0A # RET_TEST_DONE_MSG)
               \<or> RET_REPORT_BUF_SIZE \<le> length (last (sent s')))"
  proof (cases "tag_found (param s1) = 0 \<and> test_tag (param s1) \<noteq> RET_ROOT_TAG")
    case True
    then show ?thesis
      using retExit_done_path_not_found [OF True] r(4) p by (auto simp: s'_def)
  next
    case False
    then show ?thesis
      using retExit_done_sentinel [OF False] r(4) p by (auto simp: s'_def)
  qed
  show ?thesis
    using r(1) e n o unfolding s'_def [symmetric] by blast
qed

theorem run_ends_with_terminal_report_witness:
  "wf_func (Branch [Test (Leaf [] RET_PASS) ''A''])
   \<and> (\<exists>v s' evs.
      retStart RET_MODE_EXE ''ROOT'' (Branch [Test (Leaf [] RET_PASS) ''A'']) (power_on [])
        = Some (Return v s')
    \<and> events s'
        = (if tag_found (param s') = 0 \<and> ''ROOT'' \<noteq> RET_ROOT_TAG
           then EvPathNotFound else EvDone)
            # evs @ events (power_on [])
    \<and> EvDone \<notin> set evs \<and> EvPathNotFound \<notin> set evs
    \<and> (if tag_found (param s') = 0 \<and> ''ROOT'' \<noteq> RET_ROOT_TAG
       then (buf s' = []
             \<and> (\<exists>pre n. concat (sent s') = pre @ line_text (CHR ''I'') n RET_PATH_ERR_MSG))
            \<or> RET_REPORT_BUF_SIZE \<le> length (buf s')
       else buf s' = [] \<and> sent s' \<noteq> []
            \<and> ((\<exists>pre. concat (sent s') = pre @ CHR 0x0A # RET_TEST_DONE_MSG)
               \<or> RET_REPORT_BUF_SIZE \<le> length (last (sent s')))))"
proof -
  have w: "wf_func (Branch [Test (Leaf [] RET_PASS) ''A''])"
    by simp
  from w run_ends_with_terminal_report [OF w, of RET_MODE_EXE "''ROOT''" "power_on []"]
  show ?thesis
    by (rule conjI)
qed
end
